theory Spec2Isabelle
  imports Main "HOL-Library.AList"
begin

section \<open>JavaScript values\<close>

text \<open>
  The front end is TypeScript: its type annotations are erased at run time, and every value
  that crosses the network is whatever \<^verbatim>\<open>response.json()\<close> produced. The model therefore
  works on run-time values. An object is an association list read through \<open>map_of\<close>
  (no definition below enumerates the keys of an object, so the order of the list carries
  no meaning). Numbers are the integral ones (epoch seconds, counters); \<open>JNative\<close> is a
  built-in function or object that a property lookup can reach through
  \<^verbatim>\<open>Object.prototype\<close>. A \<open>string\<close> is the UTF-8 encoding of the JavaScript string.
\<close>

datatype js =
    JUndefined
  | JNull
  | JBool bool
  | JNum int
  | JStr string
  | JArr "js list"
  | JObj "(string \<times> js) list"
  | JNative string

text \<open>A thrown value: an instance of \<^verbatim>\<open>Error\<close> (or of a subclass) with its message, or
  anything else.\<close>

datatype exn = Error string | NonError

text \<open>\<^verbatim>\<open>try { body } catch (e) { handler }\<close>\<close>

definition try_catch :: "exn + 'a \<Rightarrow> (exn \<Rightarrow> exn + 'a) \<Rightarrow> exn + 'a" where
  "try_catch body handler = (case body of Inl e \<Rightarrow> handler e | Inr v \<Rightarrow> Inr v)"

text \<open>\<^verbatim>\<open>!!v\<close>\<close>

fun truthy :: "js \<Rightarrow> bool" where
  "truthy JUndefined = False"
| "truthy JNull = False"
| "truthy (JBool b) = b"
| "truthy (JNum n) = (n \<noteq> 0)"
| "truthy (JStr s) = (s \<noteq> [])"
| "truthy (JArr _) = True"
| "truthy (JObj _) = True"
| "truthy (JNative _) = True"

fun nullish :: "js \<Rightarrow> bool" where
  "nullish JUndefined = True"
| "nullish JNull = True"
| "nullish _ = False"

text \<open>\<^verbatim>\<open>a ?? b\<close>\<close>

definition coalesce :: "js \<Rightarrow> js \<Rightarrow> js" where
  "coalesce a b = (if nullish a then b else a)"

text \<open>
  \<^verbatim>\<open>v?.k\<close> for one of the fixed keys the source reads (\<^verbatim>\<open>sessionId\<close>, \<^verbatim>\<open>status\<close>,
  \<^verbatim>\<open>detail\<close>, \<^verbatim>\<open>message\<close>, ...): none of them is a member of a prototype, so the result
  is the own property of an object and \<^verbatim>\<open>undefined\<close> on everything else.
\<close>

definition get :: "js \<Rightarrow> string \<Rightarrow> js" where
  "get v k =
     (case v of
        JObj ps \<Rightarrow> (case map_of ps k of Some x \<Rightarrow> x | None \<Rightarrow> JUndefined)
      | _ \<Rightarrow> JUndefined)"

text \<open>\<^verbatim>\<open>v.k\<close> without the question mark raises a TypeError on \<^verbatim>\<open>null\<close> and \<^verbatim>\<open>undefined\<close>.\<close>

definition get_strict :: "js \<Rightarrow> string \<Rightarrow> exn + js" where
  "get_strict v k =
     (if nullish v then Inl (Error (''Cannot read properties of '' @
         (if v = JNull then ''null'' else ''undefined'') @
         '' (reading '' @ [CHR 0x27] @ k @ [CHR 0x27] @ '')''))
      else Inr (get v k))"

definition digit :: "nat \<Rightarrow> char" where
  "digit d = ''0123456789ABCDEF'' ! d"

function show_nat :: "nat \<Rightarrow> string" where
  "show_nat n = (if n < 10 then [digit n] else show_nat (n div 10) @ [digit (n mod 10)])"
  by pat_completeness auto
termination
  by (relation "measure id") auto

declare show_nat.simps [simp del]

fun join :: "string \<Rightarrow> string list \<Rightarrow> string" where
  "join sep [] = []"
| "join sep [x] = x"
| "join sep (x # y # ys) = x @ sep @ join sep (y # ys)"

text \<open>\<^verbatim>\<open>String(v)\<close>, which is also how a value becomes a property key or the message of
  \<^verbatim>\<open>new Error(v)\<close>. The digits of a number are those JavaScript prints below
  \<^verbatim>\<open>1e21\<close> (from there on it prints an exponent), and an object is taken to convert
  through \<^verbatim>\<open>Object.prototype.toString\<close>; where a theorem of a claim depends on the
  text of a converted value, the value is a string.\<close>

fun to_string :: "js \<Rightarrow> string" where
  "to_string JUndefined = ''undefined''"
| "to_string JNull = ''null''"
| "to_string (JBool b) = (if b then ''true'' else ''false'')"
| "to_string (JNum n) = (if n < 0 then CHR ''-'' # show_nat (nat (- n)) else show_nat (nat n))"
| "to_string (JStr s) = s"
| "to_string (JArr xs) = join '','' (map (\<lambda>v. if nullish v then [] else to_string v) xs)"
| "to_string (JObj _) = ''[object Object]''"
| "to_string (JNative n) = ''function '' @ n @ ''() { [native code] }''"

text \<open>The own enumerable properties that \<^verbatim>\<open>{...v}\<close> copies: the fields of an object, the
  indexed elements of an array or of a string (one element per character, which is exact
  for ASCII strings), nothing for the other primitives.\<close>

fun own_props :: "js \<Rightarrow> (string \<times> js) list" where
  "own_props (JObj ps) = ps"
| "own_props (JArr xs) = zip (map show_nat [0..<length xs]) xs"
| "own_props (JStr s) = zip (map show_nat [0..<length s]) (map (\<lambda>c. JStr [c]) s)"
| "own_props _ = []"

text \<open>\<^verbatim>\<open>{ ...a, ...b }\<close>\<close>

definition spread2 :: "js \<Rightarrow> js \<Rightarrow> js" where
  "spread2 a b = JObj (AList.merge (own_props a) (own_props b))"

text \<open>The names every object literal inherits from \<^verbatim>\<open>Object.prototype\<close>.\<close>

definition object_prototype_keys :: "string list" where
  "object_prototype_keys =
     [''constructor'', ''toString'', ''toLocaleString'', ''valueOf'', ''hasOwnProperty'',
      ''isPrototypeOf'', ''propertyIsEnumerable'', ''__proto__'', ''__defineGetter__'',
      ''__defineSetter__'', ''__lookupGetter__'', ''__lookupSetter__'']"

text \<open>\<^verbatim>\<open>table[key]\<close> on an object literal with string values: the own property, else the
  inherited member, else \<^verbatim>\<open>undefined\<close>.\<close>

definition index_record :: "(string \<times> string) list \<Rightarrow> js \<Rightarrow> js" where
  "index_record table key =
     (let k = to_string key in
      case map_of table k of
        Some label \<Rightarrow> JStr label
      | None \<Rightarrow> if k \<in> set object_prototype_keys then JNative k else JUndefined)"

text \<open>\<^verbatim>\<open>Object.is(old, new)\<close> as React applies it to a dependency: primitives are compared
  by value, arrays and objects by reference, and a value that was just parsed from a
  response (\<open>fresh\<close>) is a new reference.\<close>

fun is_reference :: "js \<Rightarrow> bool" where
  "is_reference (JArr _) = True"
| "is_reference (JObj _) = True"
| "is_reference _ = False"

definition same_dep :: "js \<Rightarrow> js \<Rightarrow> bool \<Rightarrow> bool" where
  "same_dep old new fresh = (old = new \<and> \<not> (fresh \<and> is_reference new))"

section \<open>The backend-forwarding boundary\<close>

text \<open>
  \<^verbatim>\<open>lib/backend\<close> and the three route handlers under \<^verbatim>\<open>app/api\<close>. The upstream is what
  \<^verbatim>\<open>fetch\<close> does with a request: it rejects (the backend cannot be reached), or it
  resolves to a response with a status and a body that \<^verbatim>\<open>response.json()\<close> parses or not.
\<close>

record request_init =
  http_method :: string
  headers :: "(string \<times> string) list"
  body :: "js option"

record response =
  http_status :: nat
  json :: "js option"

type_synonym network = "string \<Rightarrow> request_init option \<Rightarrow> exn + response"

definition DEFAULT_BASE_URL :: string where
  "DEFAULT_BASE_URL = ''http://localhost:8000''"

text \<open>\<^verbatim>\<open>process.env.BACKEND_BASE_URL ?? DEFAULT_BASE_URL\<close>\<close>

definition BACKEND_BASE_URL :: "string option \<Rightarrow> string" where
  "BACKEND_BASE_URL env = (case env of None \<Rightarrow> DEFAULT_BASE_URL | Some u \<Rightarrow> u)"

definition parseJsonResponse :: "response \<Rightarrow> js" where
  "parseJsonResponse r =
     (case json r of
        Some v \<Rightarrow> v
      | None \<Rightarrow> JObj [(''message'', JStr ''Unexpected backend response'')])"

definition forwardToBackend ::
  "network \<Rightarrow> string option \<Rightarrow> string \<Rightarrow> request_init option \<Rightarrow> exn + (response \<times> js)" where
  "forwardToBackend net env path init =
     (case net (BACKEND_BASE_URL env @ path) init of
        Inl e \<Rightarrow> Inl e
      | Inr r \<Rightarrow> Inr (r, parseJsonResponse r))"

text \<open>
  What the handlers return. \<^verbatim>\<open>NextResponse.json(payload, { status })\<close> builds a
  \<^verbatim>\<open>Response\<close> with a JSON body, and the constructor of the Fetch standard refuses a status
  outside 200..599 (RangeError) and a body on a null-body status (TypeError).
\<close>

record next_response =
  res_status :: nat
  res_body :: js

definition null_body_status :: "nat \<Rightarrow> bool" where
  "null_body_status s = (s = 101 \<or> s = 103 \<or> s = 204 \<or> s = 205 \<or> s = 304)"

definition NextResponse_json :: "js \<Rightarrow> nat \<Rightarrow> exn + next_response" where
  "NextResponse_json payload s =
     (if s < 200 \<or> 599 < s then
        Inl (Error ''init[\"status\"] must be in the range of 200 to 599, inclusive.'')
      else if null_body_status s then
        Inl (Error (''Response constructor: Invalid response status code '' @ show_nat s))
      else Inr \<lparr> res_status = s, res_body = payload \<rparr>)"

text \<open>The body of the catch branch that the three handlers share.\<close>

definition unreachable_envelope :: "exn \<Rightarrow> js" where
  "unreachable_envelope error =
     JObj [(''message'', JStr ''Unable to reach backend service''),
           (''details'', JStr (case error of Error m \<Rightarrow> m | NonError \<Rightarrow> ''unknown error''))]"

text \<open>\<^verbatim>\<open>app/api/interview-sessions/route.ts\<close>; \<open>req\<close> is the outcome of
  \<^verbatim>\<open>request.json()\<close>, and the forwarded body is the JSON text of that value.\<close>

definition POST_sessions :: "network \<Rightarrow> string option \<Rightarrow> js option \<Rightarrow> exn + next_response" where
  "POST_sessions net env req =
     (case req of
        None \<Rightarrow> NextResponse_json (JObj [(''message'', JStr ''Invalid JSON payload'')]) 400
      | Some payload \<Rightarrow>
          try_catch
            (case forwardToBackend net env ''/api/sessions''
                    (Some \<lparr> http_method = ''POST'',
                            headers = [(''Content-Type'', ''application/json'')],
                            body = Some payload \<rparr>) of
               Inl e \<Rightarrow> Inl e
             | Inr (r, data) \<Rightarrow> NextResponse_json data (http_status r))
            (\<lambda>error. NextResponse_json (unreachable_envelope error) 502))"

text \<open>\<^verbatim>\<open>app/api/interview-sessions/[sessionId]/start/route.ts\<close>\<close>

definition POST_start :: "network \<Rightarrow> string option \<Rightarrow> string \<Rightarrow> exn + next_response" where
  "POST_start net env sessionId =
     (if sessionId = [] then
        NextResponse_json (JObj [(''message'', JStr ''Session ID is required'')]) 400
      else
        try_catch
          (case forwardToBackend net env (''/api/sessions/'' @ sessionId @ ''/start'')
                  (Some \<lparr> http_method = ''POST'', headers = [], body = None \<rparr>) of
             Inl e \<Rightarrow> Inl e
           | Inr (r, payload) \<Rightarrow> NextResponse_json payload (http_status r))
          (\<lambda>error. NextResponse_json (unreachable_envelope error) 502))"

text \<open>\<^verbatim>\<open>encodeURIComponent\<close> on the UTF-8 bytes of the string: the unreserved characters
  stay, every other byte becomes \<^verbatim>\<open>%XX\<close>.\<close>

definition uri_unreserved :: "char \<Rightarrow> bool" where
  "uri_unreserved c =
     (c \<in> set ''ABCDEFGHIJKLMNOPQRSTUVWXYZabcdefghijklmnopqrstuvwxyz0123456789-_.!~*'' \<or>
      c = CHR 0x27 \<or> c = CHR ''('' \<or> c = CHR '')'')"

definition encodeURIComponent :: "string \<Rightarrow> string" where
  "encodeURIComponent s =
     concat (map (\<lambda>c. if uri_unreserved c then [c]
                       else [CHR ''%'', digit (of_char c div 16), digit (of_char c mod 16)]) s)"

text \<open>\<^verbatim>\<open>app/api/interview-analysis/[conversationId]/route.ts\<close>\<close>

definition GET_analysis :: "network \<Rightarrow> string option \<Rightarrow> string option \<Rightarrow> exn + next_response" where
  "GET_analysis net env conversationId =
     (case conversationId of
        None \<Rightarrow> NextResponse_json (JObj [(''message'', JStr ''conversationId is required'')]) 400
      | Some cid \<Rightarrow>
          if cid = [] then
            NextResponse_json (JObj [(''message'', JStr ''conversationId is required'')]) 400
          else
            try_catch
              (case forwardToBackend net env
                      (''/api/interviews/'' @ encodeURIComponent cid @ ''/analysis'') None of
                 Inl e \<Rightarrow> Inl e
               | Inr (r, payload) \<Rightarrow> NextResponse_json payload (http_status r))
              (\<lambda>error. NextResponse_json (unreachable_envelope error) 502))"

section \<open>The analysis page: normalising the backend payload\<close>

record AnalysisStatus =
  conversationId :: js
  status :: js
  updatedAt :: js
  analysis :: js

definition normalizeResponse :: "js \<Rightarrow> exn + AnalysisStatus" where
  "normalizeResponse data =
     (case get_strict data ''conversation_id'' of
        Inl e \<Rightarrow> Inl e
      | Inr cid \<Rightarrow>
          Inr \<lparr> conversationId = cid,
                status = get data ''status'',
                updatedAt = get data ''updated_at'',
                analysis = coalesce (get data ''analysis'') JNull \<rparr>)"

section \<open>The analysis page: retrieval and retry\<close>

text \<open>
  \<^verbatim>\<open>AnalysisContent\<close>. The component state is the three \<^verbatim>\<open>useState\<close> cells and the
  search parameter; every run of the effect creates a closure with its own
  \<^verbatim>\<open>isCancelled\<close> and \<^verbatim>\<open>timeout\<close> variables, kept in a store because requests and timers
  that outlive a run still refer to the variables of that run. The browser side is the
  timer table, the requests in flight and a clock in milliseconds. Identifiers of
  closures, timers and requests are drawn from one counter that starts at 1, so a timer
  identifier is truthy, as in a browser. The cells \<^verbatim>\<open>status\<close>, \<^verbatim>\<open>isLoading\<close> and
  \<^verbatim>\<open>error\<close> are the fields \<open>st_status\<close>, \<open>st_isLoading\<close> and \<open>st_error\<close> (the name
  \<open>status\<close> is the field of the normalised payload); \<open>issued\<close> logs every request that
  left the page.
\<close>

text \<open>How a \<^verbatim>\<open>fetch\<close> of one of the pages ends: the promise rejects, or it resolves to a
  response with its \<^verbatim>\<open>ok\<close> flag and a body that \<^verbatim>\<open>response.json()\<close> parses or not.\<close>

datatype outcome = Rejected exn | Resolved bool "js option"

record closure =
  captured_conversationId :: string
  isCancelled :: bool
  timeout :: "nat option"

record timer =
  timer_id :: nat
  due :: nat
  timer_owner :: nat

record request =
  request_id :: nat
  request_owner :: nat
  withSpinner :: bool
  url :: string
  issued_at :: nat

record analysis_page =
  search_conversationId :: "string option"
  st_status :: "AnalysisStatus option"
  st_isLoading :: bool
  st_error :: "string option"
  closures :: "nat \<Rightarrow> closure option"
  current :: "nat option"
  timers :: "timer list"
  inflight :: "request list"
  issued :: "request list"
  clock :: nat
  next_id :: nat
  unmounted :: bool

definition RETRY_DELAY :: nat where
  "RETRY_DELAY = 5000"

text \<open>\<^verbatim>\<open>!conversationId\<close> on a \<^verbatim>\<open>string | null\<close>\<close>

definition no_conversation :: "string option \<Rightarrow> bool" where
  "no_conversation c = (case c of None \<Rightarrow> True | Some x \<Rightarrow> x = [])"

definition cancelled :: "nat \<Rightarrow> analysis_page \<Rightarrow> bool" where
  "cancelled c s = (case closures s c of None \<Rightarrow> True | Some cl \<Rightarrow> isCancelled cl)"

definition timeout_of :: "nat \<Rightarrow> analysis_page \<Rightarrow> nat option" where
  "timeout_of c s = (case closures s c of None \<Rightarrow> None | Some cl \<Rightarrow> timeout cl)"

definition set_timeout_var :: "nat \<Rightarrow> nat option \<Rightarrow> analysis_page \<Rightarrow> analysis_page" where
  "set_timeout_var c t s =
     (case closures s c of
        None \<Rightarrow> s
      | Some cl \<Rightarrow> s\<lparr> closures := (closures s)(c \<mapsto> cl\<lparr> timeout := t \<rparr>) \<rparr>)"

definition clearTimeout :: "nat \<Rightarrow> analysis_page \<Rightarrow> analysis_page" where
  "clearTimeout t s = s\<lparr> timers := filter (\<lambda>x. timer_id x \<noteq> t) (timers s) \<rparr>"

text \<open>\<^verbatim>\<open>timeout = setTimeout(() => fetchAnalysis(false), 5000)\<close> in closure \<open>c\<close>\<close>

definition schedule_retry :: "nat \<Rightarrow> analysis_page \<Rightarrow> analysis_page" where
  "schedule_retry c s =
     set_timeout_var c (Some (next_id s))
       (s\<lparr> timers := timers s @
               [\<lparr> timer_id = next_id s, due = clock s + RETRY_DELAY, timer_owner = c \<rparr>],
           next_id := Suc (next_id s) \<rparr>)"

text \<open>\<^verbatim>\<open>fetchAnalysis(withSpinner)\<close> of closure \<open>c\<close> up to its first \<^verbatim>\<open>await\<close>: the
  request leaves. (The function exists only inside a closure; for an identifier that is
  not a closure there is nothing to run.)\<close>

definition fetchAnalysis :: "nat \<Rightarrow> bool \<Rightarrow> analysis_page \<Rightarrow> analysis_page" where
  "fetchAnalysis c spinner s =
     (case closures s c of
        None \<Rightarrow> s
      | Some cl \<Rightarrow>
          let s1 = (if spinner then s\<lparr> st_isLoading := True \<rparr> else s);
              r = \<lparr> request_id = next_id s1, request_owner = c, withSpinner = spinner,
                    url = ''/api/interview-analysis/'' @ captured_conversationId cl,
                    issued_at = clock s1 \<rparr>
          in s1\<lparr> inflight := inflight s1 @ [r], issued := issued s1 @ [r],
                 next_id := Suc (next_id s1) \<rparr>)"

text \<open>The \<^verbatim>\<open>try\<close> block after the \<^verbatim>\<open>await\<close>, for the request of closure \<open>c\<close>.\<close>

definition fetchAnalysis_try :: "nat \<Rightarrow> outcome \<Rightarrow> analysis_page \<Rightarrow> exn + analysis_page" where
  "fetchAnalysis_try c out s =
     (case out of
        Rejected e \<Rightarrow> Inl e
      | Resolved ok parsed \<Rightarrow>
          let payload = (case parsed of None \<Rightarrow> JNull | Some v \<Rightarrow> v) in
          if \<not> ok \<or> \<not> truthy payload then
            Inl (Error (to_string
                   (coalesce (get payload ''detail'')
                      (coalesce (get payload ''message'') (JStr ''Unable to load analysis.'')))))
          else if cancelled c s then Inr s
          else
            (case normalizeResponse payload of
               Inl e \<Rightarrow> Inl e
             | Inr normalized \<Rightarrow>
                 let s1 = s\<lparr> st_status := Some normalized, st_error := None \<rparr>;
                     s2 = (case timeout_of c s1 of
                             None \<Rightarrow> s1
                           | Some t \<Rightarrow> set_timeout_var c None (clearTimeout t s1))
                 in Inr (if status normalized = JStr ''pending'' then schedule_retry c s2
                         else s2)))"

definition fetchAnalysis_catch :: "nat \<Rightarrow> exn \<Rightarrow> analysis_page \<Rightarrow> exn + analysis_page" where
  "fetchAnalysis_catch c err s =
     Inr (if \<not> cancelled c s then
            s\<lparr> st_error := Some (case err of Error m \<Rightarrow> m
                                  | NonError \<Rightarrow> ''Unable to reach analysis service.'') \<rparr>
          else s)"

definition fetchAnalysis_finally :: "nat \<Rightarrow> bool \<Rightarrow> analysis_page \<Rightarrow> analysis_page" where
  "fetchAnalysis_finally c spinner s =
     (if \<not> cancelled c s \<and> spinner then s\<lparr> st_isLoading := False \<rparr> else s)"

text \<open>The rest of \<^verbatim>\<open>fetchAnalysis\<close> once the request has ended with \<open>out\<close>.\<close>

definition fetchAnalysis_resume :: "request \<Rightarrow> outcome \<Rightarrow> analysis_page \<Rightarrow> exn + analysis_page" where
  "fetchAnalysis_resume r out s =
     (case try_catch (fetchAnalysis_try (request_owner r) out s)
                     (\<lambda>err. fetchAnalysis_catch (request_owner r) err s) of
        Inl e \<Rightarrow> Inl e
      | Inr s' \<Rightarrow> Inr (fetchAnalysis_finally (request_owner r) (withSpinner r) s'))"

text \<open>The function the effect returns.\<close>

definition cleanup :: "analysis_page \<Rightarrow> analysis_page" where
  "cleanup s =
     (case current s of
        None \<Rightarrow> s
      | Some c \<Rightarrow>
          (case closures s c of
             None \<Rightarrow> s\<lparr> current := None \<rparr>
           | Some cl \<Rightarrow>
               let s1 = s\<lparr> closures := (closures s)(c \<mapsto> cl\<lparr> isCancelled := True \<rparr>),
                           current := None \<rparr>
               in (case timeout cl of None \<Rightarrow> s1 | Some t \<Rightarrow> clearTimeout t s1)))"

text \<open>The body of the effect, for the current search parameter.\<close>

definition effect :: "analysis_page \<Rightarrow> analysis_page" where
  "effect s =
     (let s1 = s\<lparr> st_status := None, st_error := None \<rparr> in
      case search_conversationId s1 of
        None \<Rightarrow> s1\<lparr> st_isLoading := False \<rparr>
      | Some cid \<Rightarrow>
          if cid = [] then s1\<lparr> st_isLoading := False \<rparr>
          else
            let c = next_id s1;
                s2 = s1\<lparr> closures := (closures s1)
                            (c \<mapsto> \<lparr> captured_conversationId = cid, isCancelled = False,
                                     timeout = None \<rparr>),
                         current := Some c,
                         next_id := Suc c \<rparr>
            in fetchAnalysis c True s2)"

text \<open>The component is mounted with a search parameter: the initial \<^verbatim>\<open>useState\<close> values,
  then the effect.\<close>

definition mount :: "string option \<Rightarrow> analysis_page" where
  "mount cid =
     effect \<lparr> search_conversationId = cid, st_status = None, st_isLoading = False,
              st_error = None, closures = (\<lambda>_. None), current = None, timers = [],
              inflight = [], issued = [], clock = 0, next_id = 1, unmounted = False \<rparr>"

text \<open>A timer fires: it leaves the table and its callback \<^verbatim>\<open>fetchAnalysis(false)\<close> runs.\<close>

definition fire :: "timer \<Rightarrow> analysis_page \<Rightarrow> analysis_page" where
  "fire t s =
     fetchAnalysis (timer_owner t) False
       (s\<lparr> timers := filter (\<lambda>x. timer_id x \<noteq> timer_id t) (timers s), clock := due t \<rparr>)"

datatype event =
    Navigate "string option"
  | Unmount
  | Tick nat
  | Respond nat outcome

text \<open>
  One step of the page. \<open>Navigate\<close>: the search parameter changes, the old effect is
  cleaned up and the effect runs again. \<open>Unmount\<close>: only the clean-up. \<open>Tick d\<close>:
  \<open>d\<close> milliseconds pass and the timers that come due fire, oldest first (all timers
  have the same delay). \<open>Respond i out\<close>: the request \<open>i\<close> ends with \<open>out\<close> (nothing
  happens when no request \<open>i\<close> is in flight). A step yields \<open>Inl\<close> when an exception
  escapes the code.
\<close>

definition step :: "event \<Rightarrow> analysis_page \<Rightarrow> exn + analysis_page" where
  "step e s =
     (case e of
        Navigate cid \<Rightarrow>
          Inr (if unmounted s \<or> cid = search_conversationId s then s
               else effect ((cleanup s)\<lparr> search_conversationId := cid \<rparr>))
      | Unmount \<Rightarrow> Inr (if unmounted s then s else (cleanup s)\<lparr> unmounted := True \<rparr>)
      | Tick d \<Rightarrow>
          Inr ((fold fire (filter (\<lambda>t. due t \<le> clock s + d) (timers s)) s)
                 \<lparr> clock := clock s + d \<rparr>)
      | Respond i out \<Rightarrow>
          (case find (\<lambda>r. request_id r = i) (inflight s) of
             None \<Rightarrow> Inr s
           | Some r \<Rightarrow>
               fetchAnalysis_resume r out
                 (s\<lparr> inflight := filter (\<lambda>x. request_id x \<noteq> i) (inflight s) \<rparr>)))"

fun run :: "event list \<Rightarrow> analysis_page \<Rightarrow> exn + analysis_page" where
  "run [] s = Inr s"
| "run (e # es) s = (case step e s of Inl x \<Rightarrow> Inl x | Inr s' \<Rightarrow> run es s')"

section \<open>The analysis page: what it renders\<close>

text \<open>
  A render of \<^verbatim>\<open>AnalysisContent\<close> computes \<^verbatim>\<open>readyAnalysis\<close> and \<^verbatim>\<open>score\<close>, then calls
  \<^verbatim>\<open>renderContent\<close>; React then draws the markup. Each of the three can raise: reading a
  property of \<^verbatim>\<open>null\<close> or \<^verbatim>\<open>undefined\<close>, calling a method that the value does not have,
  converting an object that has no usable \<^verbatim>\<open>toString\<close>, and a plain object among the
  children of an element. A render that raises takes the component down (React unmounts
  it), which for the state of the page is the event \<open>Unmount\<close>.
\<close>

text \<open>\<^verbatim>\<open>ToPrimitive\<close>, and with it \<^verbatim>\<open>String(v)\<close>, a template literal and \<^verbatim>\<open>new Date(v)\<close>,
  succeed: an object parsed from JSON converts through \<^verbatim>\<open>Object.prototype.toString\<close>
  unless it has an own property \<^verbatim>\<open>toString\<close>, which is then not a function; an array
  converts its elements.\<close>

fun convertible :: "js \<Rightarrow> bool" where
  "convertible (JObj ps) = (map_of ps ''toString'' = None)"
| "convertible (JArr xs) = (\<forall>x \<in> set xs. convertible x)"
| "convertible v = True"

text \<open>React accepts the value as a child of an element: text, a number, nothing for
  \<^verbatim>\<open>null\<close>, \<^verbatim>\<open>undefined\<close> and booleans, the elements of an array one by one; a plain
  object is refused with an error.\<close>

fun react_child :: "js \<Rightarrow> bool" where
  "react_child (JObj ps) = False"
| "react_child (JArr xs) = (\<forall>x \<in> set xs. react_child x)"
| "react_child (JNative n) = (n \<noteq> ''__proto__'')"
| "react_child v = True"

definition child_error :: "js \<Rightarrow> exn option" where
  "child_error v =
     (if react_child v then None else Some (Error ''Objects are not valid as a React child''))"

text \<open>The error that reading \<^verbatim>\<open>v.k\<close> raises, if any.\<close>

definition read_error :: "js \<Rightarrow> string \<Rightarrow> exn option" where
  "read_error v k = (case get_strict v k of Inl e \<Rightarrow> Some e | Inr x \<Rightarrow> None)"

text \<open>The first error of a sequence of evaluations.\<close>

fun first_error :: "exn option list \<Rightarrow> exn option" where
  "first_error [] = None"
| "first_error (Some e # cs) = Some e"
| "first_error (None # cs) = first_error cs"

text \<open>\<^verbatim>\<open>s.toLowerCase()\<close> and \<^verbatim>\<open>s.includes(t)\<close> on the bytes of a string. Only the letters
  A to Z are mapped, which decides \<^verbatim>\<open>includes("low")\<close> and \<^verbatim>\<open>includes("high")\<close> as
  JavaScript does: no other character becomes one of the letters of these two words
  followed by the next one.\<close>

definition toLowerCase :: "string \<Rightarrow> string" where
  "toLowerCase s =
     map (\<lambda>c. case map_of (zip ''ABCDEFGHIJKLMNOPQRSTUVWXYZ'' ''abcdefghijklmnopqrstuvwxyz'') c of
                 Some l \<Rightarrow> l
               | None \<Rightarrow> c) s"

fun string_includes :: "string \<Rightarrow> string \<Rightarrow> bool" where
  "string_includes [] t = (t = [])"
| "string_includes (c # cs) t = (take (length t) (c # cs) = t \<or> string_includes cs t)"

definition is_string :: "js \<Rightarrow> bool" where
  "is_string v = (case v of JStr s \<Rightarrow> True | _ \<Rightarrow> False)"

text \<open>\<^verbatim>\<open>confidenceScore\<close>. TypeScript gives the parameter the type \<^verbatim>\<open>string\<close>; at run
  time \<^verbatim>\<open>confidence.toLowerCase()\<close> raises on everything else.\<close>

definition confidenceScore :: "js \<Rightarrow> exn + nat" where
  "confidenceScore confidence =
     (case confidence of
        JStr c \<Rightarrow>
          Inr (if string_includes (toLowerCase c) ''low'' then 35
               else if string_includes (toLowerCase c) ''high'' then 85
               else 60)
      | _ \<Rightarrow>
          (case get_strict confidence ''toLowerCase'' of
             Inl e \<Rightarrow> Inl e
           | Inr m \<Rightarrow> Inl (Error ''confidence.toLowerCase is not a function'')))"

text \<open>\<^verbatim>\<open>status?.status === "ready" ? status.analysis : null\<close>\<close>

definition readyAnalysis :: "analysis_page \<Rightarrow> js" where
  "readyAnalysis s =
     (case st_status s of
        None \<Rightarrow> JNull
      | Some st \<Rightarrow> if status st = JStr ''ready'' then analysis st else JNull)"

text \<open>The value of the \<^verbatim>\<open>useMemo\<close>; it is computed in every render that has a new
  \<^verbatim>\<open>readyAnalysis\<close>, and a render that raises stores nothing, so computing it in every
  render gives the same result.\<close>

definition score :: "analysis_page \<Rightarrow> exn + nat" where
  "score s =
     (if truthy (readyAnalysis s) then
        (case get_strict (get (readyAnalysis s) ''case_summary'') ''user_confidence'' of
           Inl e \<Rightarrow> Inl e
         | Inr confidence \<Rightarrow> confidenceScore confidence)
      else Inr 0)"

definition showLoader :: "analysis_page \<Rightarrow> bool" where
  "showLoader s = (st_isLoading s \<and> st_status s = None)"

text \<open>\<^verbatim>\<open>xs.length\<close> is truthy.\<close>

definition length_truthy :: "js \<Rightarrow> bool" where
  "length_truthy v =
     (case v of
        JArr xs \<Rightarrow> xs \<noteq> []
      | JStr s \<Rightarrow> s \<noteq> []
      | _ \<Rightarrow> truthy (get v ''length''))"

text \<open>
  \<^verbatim>\<open>xs.length ? xs.map((item, idx) => ...) : ...\<close>: nothing is called when the length is
  falsy; only an array has \<^verbatim>\<open>map\<close>. \<open>map_errors\<close> collects what the callback raises,
  element by element, and \<open>map_children\<close> the values the callback puts into the markup.
\<close>

definition map_errors :: "string \<Rightarrow> (js \<Rightarrow> nat \<Rightarrow> exn option list) \<Rightarrow> js \<Rightarrow> exn option list" where
  "map_errors name f v =
     (if \<not> length_truthy v then []
      else
        (case v of
           JArr xs \<Rightarrow> concat (map (\<lambda>(x, idx). f x idx) (zip xs [0..<length xs]))
         | _ \<Rightarrow> [Some (Error (name @ ''.map is not a function''))]))"

definition map_children :: "(js \<Rightarrow> js) \<Rightarrow> js \<Rightarrow> js list" where
  "map_children f v =
     (if \<not> length_truthy v then []
      else (case v of JArr xs \<Rightarrow> map f xs | _ \<Rightarrow> []))"

text \<open>The callback of \<^verbatim>\<open>keyEvents.map\<close>: the key
  \<^verbatim>\<open>`${event.timestamp ?? idx}-${idx}`\<close>, then \<^verbatim>\<open>event.speaker?.toLowerCase()\<close>.\<close>

definition keyEvent_errors :: "js \<Rightarrow> nat \<Rightarrow> exn option list" where
  "keyEvent_errors ev idx =
     [read_error ev ''timestamp'',
      if convertible (coalesce (get ev ''timestamp'') (JNum (int idx))) then None
      else Some (Error ''Cannot convert object to primitive value''),
      if nullish (get ev ''speaker'') \<or> is_string (get ev ''speaker'') then None
      else Some (Error ''event.speaker?.toLowerCase is not a function'')]"

text \<open>
  The last branch of \<^verbatim>\<open>renderContent\<close>, for a truthy \<^verbatim>\<open>readyAnalysis\<close>: what building the
  markup raises, in the order of the source, and the values that stand as children in
  the markup, which React checks when it draws it.
\<close>

definition report_children :: "js \<Rightarrow> js list" where
  "report_children a =
     [get (get a ''case_summary'') ''case_type'',
      get (get a ''case_summary'') ''overall_summary'',
      get (get a ''case_summary'') ''user_confidence''] @
     map_children (\<lambda>item. item)
       (coalesce (get (get a ''coaching_feedback'') ''strengths'') (JArr [])) @
     map_children (\<lambda>item. item)
       (coalesce (get (get a ''coaching_feedback'') ''areas_for_improvement'') (JArr [])) @
     map_children (\<lambda>item. item)
       (coalesce (get (get a ''coaching_feedback'') ''next_practice_focus'') (JArr [])) @
     map_children (\<lambda>ev. get ev ''message'') (coalesce (get a ''key_events'') (JArr [])) @
     map_children (\<lambda>item. item) (coalesce (get a ''action_items'') (JArr [])) @
     [get (get a ''sentiment'') ''user'', get (get a ''sentiment'') ''assistant''] @
     (if truthy (get (get a ''engagement_summary'') ''summary'')
      then [get (get a ''engagement_summary'') ''summary''] else [])"

definition report_errors :: "js \<Rightarrow> exn option list" where
  "report_errors a =
     [read_error (get a ''case_summary'') ''case_type'',
      read_error (get a ''case_summary'') ''overall_summary'',
      read_error (get a ''case_summary'') ''user_confidence''] @
     map_errors ''strengths'' (\<lambda>item idx. [])
       (coalesce (get (get a ''coaching_feedback'') ''strengths'') (JArr [])) @
     map_errors ''improvements'' (\<lambda>item idx. [])
       (coalesce (get (get a ''coaching_feedback'') ''areas_for_improvement'') (JArr [])) @
     map_errors ''nextFocus'' (\<lambda>item idx. [])
       (coalesce (get (get a ''coaching_feedback'') ''next_practice_focus'') (JArr [])) @
     map_errors ''keyEvents'' keyEvent_errors (coalesce (get a ''key_events'') (JArr [])) @
     map_errors ''actionItems'' (\<lambda>item idx. []) (coalesce (get a ''action_items'') (JArr [])) @
     [read_error (get a ''sentiment'') ''user'', read_error (get a ''sentiment'') ''assistant''] @
     map child_error (report_children a)"

text \<open>What \<^verbatim>\<open>renderContent\<close> shows, by the branch it takes. \<open>ReportCard\<close> stands for the
  markup of the report, which is built from the analysis and the score and not modelled
  further.\<close>

datatype view =
    NoConversationCard
  | LoaderCard
  | ErrorCard string
  | Blank
  | PendingCard js js
  | NoDataCard
  | ReportCard js

text \<open>\<^verbatim>\<open>renderContent\<close> and the drawing of what it returns. The pending card converts
  \<^verbatim>\<open>status.updatedAt\<close> with \<^verbatim>\<open>new Date\<close> and has \<^verbatim>\<open>status.conversationId\<close> as a child.\<close>

definition renderContent :: "analysis_page \<Rightarrow> exn + view" where
  "renderContent s =
     (if no_conversation (search_conversationId s) then Inr NoConversationCard
      else if showLoader s then Inr LoaderCard
      else if (case st_error s of None \<Rightarrow> False | Some m \<Rightarrow> m \<noteq> []) then
        Inr (ErrorCard (case st_error s of None \<Rightarrow> [] | Some m \<Rightarrow> m))
      else
        (case st_status s of
           None \<Rightarrow> Inr Blank
         | Some st \<Rightarrow>
             if status st = JStr ''pending'' then
               (if \<not> convertible (updatedAt st) then
                  Inl (Error ''Cannot convert object to primitive value'')
                else
                  (case child_error (conversationId st) of
                     Some e \<Rightarrow> Inl e
                   | None \<Rightarrow> Inr (PendingCard (conversationId st) (updatedAt st))))
             else if \<not> truthy (readyAnalysis s) then Inr NoDataCard
             else
               (case first_error (report_errors (readyAnalysis s)) of
                  Some e \<Rightarrow> Inl e
                | None \<Rightarrow> Inr (ReportCard (readyAnalysis s)))))"

text \<open>One render of the component.\<close>

definition AnalysisContent :: "analysis_page \<Rightarrow> exn + view" where
  "AnalysisContent s = (case score s of Inl e \<Rightarrow> Inl e | Inr n \<Rightarrow> renderContent s)"

text \<open>The render that precedes the first run of the effect, with the initial values of the
  three cells.\<close>

definition first_render :: "string option \<Rightarrow> exn + view" where
  "first_render cid =
     AnalysisContent
       \<lparr> search_conversationId = cid, st_status = None, st_isLoading = False,
         st_error = None, closures = (\<lambda>c. None), current = None, timers = [],
         inflight = [], issued = [], clock = 0, next_id = 1, unmounted = False \<rparr>"

section \<open>The company page: session status polling\<close>

text \<open>
  \<^verbatim>\<open>CompanyDetailPage\<close> (the version of the page that creates sessions). The state is the
  four \<^verbatim>\<open>useState\<close> cells, the interval that the polling effect registered (by the time
  of its next firing; none when the effect returned early or was cleaned up), the clock
  in milliseconds, and the log of the status requests that left the page, each with its
  time and path. \<open>console\<close> collects what \<^verbatim>\<open>console.error\<close> printed.
\<close>

record company_page =
  session :: js
  errorMessage :: "string option"
  isCreatingSession :: bool
  isStartingBot :: bool
  intervalId :: "nat option"
  page_clock :: nat
  status_requests :: "(nat \<times> string) list"
  console :: "string list"

definition SESSION_STATUS_LABELS :: "(string \<times> string) list" where
  "SESSION_STATUS_LABELS =
     [(''room_created'', ''Room ready '' @ [CHR 0xE2, CHR 0x80, CHR 0x94] @
                         '' join the link below when you'' @ [CHR 0x27] @ ''re set.''),
      (''bot_starting'', ''Summoning the AI interviewer...''),
      (''bot_running'', ''AI interviewer is live in the room.''),
      (''bot_stopping'', ''Wrapping up the session...''),
      (''bot_completed'', ''Session completed.''),
      (''bot_error'', ''Something went wrong starting the AI. Try again.'')]"

definition pollableStatuses :: "string list" where
  "pollableStatuses = [''bot_starting'', ''bot_running'', ''bot_stopping'']"

definition POLL_INTERVAL :: nat where
  "POLL_INTERVAL = 4000"

definition parseJsonSafe :: "js option \<Rightarrow> js" where
  "parseJsonSafe parsed = (case parsed of None \<Rightarrow> JNull | Some v \<Rightarrow> v)"

text \<open>\<^verbatim>\<open>fetchSessionStatus\<close> up to its \<^verbatim>\<open>await\<close>: the guard, then the request leaves.\<close>

definition fetchSessionStatus :: "company_page \<Rightarrow> company_page" where
  "fetchSessionStatus s =
     (if \<not> truthy (get (session s) ''sessionId'') then s
      else s\<lparr> status_requests := status_requests s @
                 [(page_clock s, ''/api/interview-sessions/'' @
                                 to_string (get (session s) ''sessionId'') @ ''/status'')] \<rparr>)"

text \<open>The body of the polling effect; it runs when \<^verbatim>\<open>session?.sessionId\<close> or
  \<^verbatim>\<open>session?.status\<close> changed, after the clean-up of the run before.\<close>

definition polling_effect :: "company_page \<Rightarrow> company_page" where
  "polling_effect s =
     (if \<not> truthy (get (session s) ''sessionId'') then s
      else if get (session s) ''status'' \<notin> set (map JStr pollableStatuses) then s
      else
        let s1 = fetchSessionStatus s
        in s1\<lparr> intervalId := Some (page_clock s1 + POLL_INTERVAL) \<rparr>)"

text \<open>
  \<^verbatim>\<open>setSession(new)\<close> followed by the render it causes: when one of the two dependencies
  changed, the interval of the old run is cleared and the effect runs on the new session.
  \<open>fresh k\<close> tells whether the field \<open>k\<close> of the new session was just parsed.
\<close>

definition setSession :: "js \<Rightarrow> (string \<Rightarrow> bool) \<Rightarrow> company_page \<Rightarrow> company_page" where
  "setSession new fresh s =
     (if same_dep (get (session s) ''sessionId'') (get new ''sessionId'') (fresh ''sessionId'') \<and>
         same_dep (get (session s) ''status'') (get new ''status'') (fresh ''status'')
      then s\<lparr> session := new \<rparr>
      else polling_effect (s\<lparr> session := new, intervalId := None \<rparr>))"

text \<open>\<^verbatim>\<open>setSession((prev) => (prev ? { ...prev, ...data } : data))\<close>\<close>

definition merge_session :: "js \<Rightarrow> company_page \<Rightarrow> company_page" where
  "merge_session data s =
     (if truthy (session s) then
        setSession (spread2 (session s) data) (\<lambda>k. map_of (own_props data) k \<noteq> None) s
      else setSession data (\<lambda>k. True) s)"

text \<open>The rest of \<^verbatim>\<open>fetchSessionStatus\<close> once its request has ended with \<open>out\<close>.\<close>

definition fetchSessionStatus_resume :: "outcome \<Rightarrow> company_page \<Rightarrow> exn + company_page" where
  "fetchSessionStatus_resume out s =
     try_catch
       (case out of
          Rejected e \<Rightarrow> Inl e
        | Resolved ok parsed \<Rightarrow>
            if \<not> ok then Inr s
            else
              let data = parseJsonSafe parsed in
              if \<not> truthy data then Inr s else Inr (merge_session data s))
       (\<lambda>err. Inr (s\<lparr> console := console s @ [''Failed to refresh session status''] \<rparr>))"

text \<open>The interval fires at \<open>due\<close>, \<open>due + 4000\<close>, ... up to \<open>limit\<close>; each firing calls
  \<^verbatim>\<open>poll\<close>.\<close>

function run_interval :: "nat \<Rightarrow> nat \<Rightarrow> company_page \<Rightarrow> company_page" where
  "run_interval d limit s =
     (if d \<le> limit then
        run_interval (d + POLL_INTERVAL) limit (fetchSessionStatus (s\<lparr> page_clock := d \<rparr>))
      else s\<lparr> intervalId := Some d, page_clock := limit \<rparr>)"
  by pat_completeness auto
termination
  by (relation "measure (\<lambda>(d, limit, s). Suc limit - d)") (auto simp: POLL_INTERVAL_def)

declare run_interval.simps [simp del]

definition elapse :: "nat \<Rightarrow> company_page \<Rightarrow> company_page" where
  "elapse ms s =
     (case intervalId s of
        None \<Rightarrow> s\<lparr> page_clock := page_clock s + ms \<rparr>
      | Some d \<Rightarrow> run_interval d (page_clock s + ms) s)"

text \<open>The effect on \<^verbatim>\<open>[slug, selectedInterview]\<close>\<close>

definition reset_flow :: "company_page \<Rightarrow> company_page" where
  "reset_flow s =
     (setSession JNull (\<lambda>k. False) s)
       \<lparr> errorMessage := None, isCreatingSession := False, isStartingBot := False \<rparr>"

text \<open>\<^verbatim>\<open>handleCreateSession\<close>, for a page that has a company and a selected interview:
  before the \<^verbatim>\<open>await\<close>, and after it.\<close>

definition handleCreateSession :: "company_page \<Rightarrow> company_page" where
  "handleCreateSession s = s\<lparr> isCreatingSession := True, errorMessage := None \<rparr>"

definition handleCreateSession_resume :: "outcome \<Rightarrow> company_page \<Rightarrow> exn + company_page" where
  "handleCreateSession_resume out s =
     (case try_catch
             (case out of
                Rejected e \<Rightarrow> Inl e
              | Resolved ok parsed \<Rightarrow>
                  let data = parseJsonSafe parsed in
                  if \<not> ok then
                    Inl (Error (to_string
                           (coalesce (get data ''detail'')
                              (coalesce (get data ''message'')
                                 (JStr ''Unable to start interview.'')))))
                  else if \<not> truthy data then
                    Inl (Error ''Unexpected response from server while starting the interview.'')
                  else Inr (setSession data (\<lambda>k. True) s))
             (\<lambda>err. Inr (s\<lparr> errorMessage :=
                               Some (case err of Error m \<Rightarrow> m
                                     | NonError \<Rightarrow> ''Unable to start interview.'') \<rparr>)) of
        Inl e \<Rightarrow> Inl e
      | Inr s' \<Rightarrow> Inr (s'\<lparr> isCreatingSession := False \<rparr>))"

text \<open>\<^verbatim>\<open>handleStartBot\<close>\<close>

definition handleStartBot :: "company_page \<Rightarrow> company_page" where
  "handleStartBot s =
     (if \<not> truthy (session s) then s
      else s\<lparr> isStartingBot := True, errorMessage := None \<rparr>)"

definition handleStartBot_resume :: "outcome \<Rightarrow> company_page \<Rightarrow> exn + company_page" where
  "handleStartBot_resume out s =
     (case try_catch
             (case out of
                Rejected e \<Rightarrow> Inl e
              | Resolved ok parsed \<Rightarrow>
                  let data = parseJsonSafe parsed in
                  if \<not> ok then
                    Inl (Error (to_string
                           (coalesce (get data ''detail'')
                              (coalesce (get data ''message'')
                                 (JStr ''Unable to bring the AI into the room.'')))))
                  else if \<not> truthy data then
                    Inl (Error ''Unexpected response from server while starting the AI.'')
                  else Inr (merge_session data s))
             (\<lambda>err. Inr (s\<lparr> errorMessage :=
                               Some (case err of Error m \<Rightarrow> m
                                     | NonError \<Rightarrow>
                                         ''Unable to bring the AI into the room. Try again.'') \<rparr>)) of
        Inl e \<Rightarrow> Inl e
      | Inr s' \<Rightarrow> Inr (s'\<lparr> isStartingBot := False \<rparr>))"

text \<open>The page after its first render: initial state, both effects have run.\<close>

definition initial_page :: company_page where
  "initial_page =
     \<lparr> session = JNull, errorMessage = None, isCreatingSession = False,
       isStartingBot = False, intervalId = None, page_clock = 0, status_requests = [],
       console = [] \<rparr>"

text \<open>
  What happens to the page: the selection changes, one of the two buttons is clicked, the
  request of a click or a status request ends, time passes. The code after an \<^verbatim>\<open>await\<close>
  works on the state of the moment through \<^verbatim>\<open>setSession((prev) => ...)\<close> and does not
  look at which request it belongs to, so an answer is an event of its own here, whether
  or not a request is under way.
\<close>

datatype page_event =
    SelectionChanged
  | CreateClicked
  | CreateResponded outcome
  | StartClicked
  | StartResponded outcome
  | StatusResponded outcome
  | Elapse nat

definition page_step :: "page_event \<Rightarrow> company_page \<Rightarrow> exn + company_page" where
  "page_step e s =
     (case e of
        SelectionChanged \<Rightarrow> Inr (reset_flow s)
      | CreateClicked \<Rightarrow> Inr (handleCreateSession s)
      | CreateResponded out \<Rightarrow> handleCreateSession_resume out s
      | StartClicked \<Rightarrow> Inr (handleStartBot s)
      | StartResponded out \<Rightarrow> handleStartBot_resume out s
      | StatusResponded out \<Rightarrow> fetchSessionStatus_resume out s
      | Elapse ms \<Rightarrow> Inr (elapse ms s))"

fun page_run :: "page_event list \<Rightarrow> company_page \<Rightarrow> exn + company_page" where
  "page_run [] s = Inr s"
| "page_run (e # es) s = (case page_step e s of Inl x \<Rightarrow> Inl x | Inr s' \<Rightarrow> page_run es s')"

text \<open>\<^verbatim>\<open>session ? SESSION_STATUS_LABELS[session.status] ?? "Updating session..." : null\<close>\<close>

definition statusDescription :: "company_page \<Rightarrow> js" where
  "statusDescription s =
     (if truthy (session s) then
        coalesce (index_record SESSION_STATUS_LABELS (get (session s) ''status''))
                 (JStr ''Updating session...'')
      else JNull)"


section \<open>Invariants and concrete inputs\<close>

text \<open>The two guards of the polling effect, as one predicate on a session.\<close>

definition pollable :: "js \<Rightarrow> bool" where
  "pollable v =
     (truthy (get v ''sessionId'') \<and> get v ''status'' \<in> set (map JStr pollableStatuses))"

text \<open>The path a status request of the page goes to.\<close>

definition status_path :: "company_page \<Rightarrow> string" where
  "status_path s =
     ''/api/interview-sessions/'' @ to_string (get (session s) ''sessionId'') @ ''/status''"

text \<open>What happens to the page without the consumer: time passes, or a status request
  ends. An answer \<open>reports_pollable\<close> when it is OK and its body carries one of the three
  statuses that are polled; only a late answer can do so once the session has left them.\<close>

definition reports_pollable :: "outcome \<Rightarrow> bool" where
  "reports_pollable out =
     (case out of
        Rejected e \<Rightarrow> False
      | Resolved ok parsed \<Rightarrow>
          ok \<and> get (parseJsonSafe parsed) ''status'' \<in> set (map JStr pollableStatuses))"

fun page_unattended :: "page_event \<Rightarrow> bool" where
  "page_unattended (Elapse ms) = True"
| "page_unattended (StatusResponded out) = (\<not> reports_pollable out)"
| "page_unattended SelectionChanged = False"
| "page_unattended CreateClicked = False"
| "page_unattended (CreateResponded out) = False"
| "page_unattended StartClicked = False"
| "page_unattended (StartResponded out) = False"

text \<open>An interval is registered exactly while the session is pollable, and its next
  firing lies within one period.\<close>

definition polling_inv :: "company_page \<Rightarrow> bool" where
  "polling_inv s =
     ((intervalId s \<noteq> None) = pollable (session s) \<and>
      (\<forall>d. intervalId s = Some d \<longrightarrow> page_clock s < d \<and> d \<le> page_clock s + POLL_INTERVAL))"

text \<open>Every outstanding timer belongs to the closure of the effect that is in place and
  is the one recorded in its \<^verbatim>\<open>timeout\<close> variable; no other closure is live; there is at
  most one timer.\<close>

definition reconciler_inv :: "analysis_page \<Rightarrow> bool" where
  "reconciler_inv s =
     ((\<forall>t \<in> set (timers s). current s = Some (timer_owner t) \<and>
                             timeout_of (timer_owner t) s = Some (timer_id t)) \<and>
      (\<forall>c. \<not> cancelled c s \<longrightarrow> current s = Some c) \<and>
      length (timers s) \<le> 1)"

text \<open>Identifiers are fresh: every closure was allocated below the counter, and a
  request in flight belongs to a closure that exists.\<close>

definition fresh_inv :: "analysis_page \<Rightarrow> bool" where
  "fresh_inv s =
     ((\<forall>c. closures s c \<noteq> None \<longrightarrow> c < next_id s) \<and>
      (\<forall>r \<in> set (inflight s). closures s (request_owner r) \<noteq> None))"

text \<open>The outcomes that take \<^verbatim>\<open>fetchAnalysis\<close> to its \<^verbatim>\<open>catch\<close> branch, and the
  message the branch stores.\<close>

definition failed :: "outcome \<Rightarrow> bool" where
  "failed out =
     (case out of
        Rejected e \<Rightarrow> True
      | Resolved ok parsed \<Rightarrow> \<not> ok \<or> \<not> truthy (case parsed of None \<Rightarrow> JNull | Some v \<Rightarrow> v))"

definition failure_message :: "outcome \<Rightarrow> string" where
  "failure_message out =
     (case out of
        Rejected e \<Rightarrow> (case e of Error m \<Rightarrow> m | NonError \<Rightarrow> ''Unable to reach analysis service.'')
      | Resolved ok parsed \<Rightarrow>
          to_string
            (coalesce (get (case parsed of None \<Rightarrow> JNull | Some v \<Rightarrow> v) ''detail'')
               (coalesce (get (case parsed of None \<Rightarrow> JNull | Some v \<Rightarrow> v) ''message'')
                  (JStr ''Unable to load analysis.''))))"

text \<open>Two upstreams: one answers 200 with a body that is not JSON, one cannot be
  reached.\<close>

definition malformed_upstream :: network where
  "malformed_upstream u init = Inr \<lparr> http_status = 200, json = None \<rparr>"

definition unreachable_upstream :: network where
  "unreachable_upstream u init = Inl (Error ''fetch failed'')"

text \<open>A session as the backend reports it after the room was created, the answers of the
  backend to later requests, and the pages a run through them reaches.\<close>

definition session_created :: js where
  "session_created =
     JObj [(''sessionId'', JStr ''s1''), (''roomUrl'', JStr ''https://x.daily.co/r1''),
           (''status'', JStr ''room_created'')]"

definition answer_starting :: js where
  "answer_starting = JObj [(''sessionId'', JStr ''s1''), (''status'', JStr ''bot_starting'')]"

definition answer_completed :: js where
  "answer_completed =
     JObj [(''status'', JStr ''bot_completed''), (''conversationId'', JStr ''conv-42'')]"


definition answer_paused :: js where
  "answer_paused = JObj [(''status'', JStr ''bot_paused'')]"


definition page_starting :: company_page where
  "page_starting =
     \<lparr> session = JObj [(''sessionId'', JStr ''s1''), (''roomUrl'', JStr ''https://x.daily.co/r1''),
                       (''status'', JStr ''bot_starting'')],
       errorMessage = None, isCreatingSession = False, isStartingBot = False,
       intervalId = Some 4000, page_clock = 0,
       status_requests = [(0, ''/api/interview-sessions/s1/status'')], console = [] \<rparr>"

definition page_completed :: company_page where
  "page_completed =
     \<lparr> session = JObj [(''sessionId'', JStr ''s1''), (''roomUrl'', JStr ''https://x.daily.co/r1''),
                       (''status'', JStr ''bot_completed''), (''conversationId'', JStr ''conv-42'')],
       errorMessage = None, isCreatingSession = False, isStartingBot = False,
       intervalId = None, page_clock = 4000,
       status_requests = [(0, ''/api/interview-sessions/s1/status''),
                          (4000, ''/api/interview-sessions/s1/status'')],
       console = [] \<rparr>"

definition page_paused :: company_page where
  "page_paused =
     \<lparr> session = JObj [(''sessionId'', JStr ''s1''), (''roomUrl'', JStr ''https://x.daily.co/r1''),
                       (''status'', JStr ''bot_paused'')],
       errorMessage = None, isCreatingSession = False, isStartingBot = False,
       intervalId = None, page_clock = 4000,
       status_requests = [(0, ''/api/interview-sessions/s1/status''),
                          (4000, ''/api/interview-sessions/s1/status'')],
       console = [] \<rparr>"

text \<open>
  The payload types that the analysis page declares (\<^verbatim>\<open>KeyEvent\<close>, \<^verbatim>\<open>CoachingFeedback\<close>,
  \<^verbatim>\<open>Analysis\<close>, \<^verbatim>\<open>BackendAnalysisResponse\<close>), as predicates on run-time values. A field
  marked \<^verbatim>\<open>?\<close> is absent or of its type.
\<close>

definition is_array_of :: "(js \<Rightarrow> bool) \<Rightarrow> js \<Rightarrow> bool" where
  "is_array_of P v = (case v of JArr xs \<Rightarrow> list_all P xs | _ \<Rightarrow> False)"

definition is_object :: "js \<Rightarrow> bool" where
  "is_object v = (case v of JObj ps \<Rightarrow> True | _ \<Rightarrow> False)"

definition optional :: "(js \<Rightarrow> bool) \<Rightarrow> js \<Rightarrow> bool" where
  "optional P v = (v = JUndefined \<or> P v)"

definition is_KeyEvent :: "js \<Rightarrow> bool" where
  "is_KeyEvent v =
     (optional is_string (get v ''timestamp'') \<and> is_string (get v ''speaker'') \<and>
      is_string (get v ''message''))"

definition is_CoachingFeedback :: "js \<Rightarrow> bool" where
  "is_CoachingFeedback v =
     (is_array_of is_string (get v ''strengths'') \<and>
      is_array_of is_string (get v ''areas_for_improvement'') \<and>
      is_array_of is_string (get v ''next_practice_focus''))"

definition is_EngagementSummary :: "js \<Rightarrow> bool" where
  "is_EngagementSummary v = (is_object v \<and> optional is_string (get v ''summary''))"

definition is_Analysis :: "js \<Rightarrow> bool" where
  "is_Analysis v =
     (is_string (get (get v ''case_summary'') ''case_type'') \<and>
      is_string (get (get v ''case_summary'') ''overall_summary'') \<and>
      is_string (get (get v ''case_summary'') ''user_confidence'') \<and>
      is_array_of is_KeyEvent (get v ''key_events'') \<and>
      is_CoachingFeedback (get v ''coaching_feedback'') \<and>
      is_array_of is_string (get v ''action_items'') \<and>
      is_string (get (get v ''sentiment'') ''user'') \<and>
      is_string (get (get v ''sentiment'') ''assistant'') \<and>
      optional is_EngagementSummary (get v ''engagement_summary'') \<and>
      optional is_string (get v ''source_transcript''))"

definition is_BackendAnalysisResponse :: "js \<Rightarrow> bool" where
  "is_BackendAnalysisResponse v =
     (is_string (get v ''conversation_id'') \<and>
      (get v ''status'' = JStr ''pending'' \<or> get v ''status'' = JStr ''ready'') \<and>
      is_string (get v ''updated_at'') \<and>
      (get v ''analysis'' = JNull \<or> is_Analysis (get v ''analysis'')))"

text \<open>The answers of the backend for the conversation \<^verbatim>\<open>c1\<close>: the analysis is not
  there yet (at two moments), and it is there.\<close>

definition analysis_pending :: js where
  "analysis_pending =
     JObj [(''conversation_id'', JStr ''c1''), (''status'', JStr ''pending''),
           (''updated_at'', JStr ''2025-01-01T00:00:00Z''), (''analysis'', JNull)]"

definition analysis_pending_later :: js where
  "analysis_pending_later =
     JObj [(''conversation_id'', JStr ''c1''), (''status'', JStr ''pending''),
           (''updated_at'', JStr ''2025-01-01T00:00:06Z''), (''analysis'', JNull)]"

definition report_c1 :: js where
  "report_c1 =
     JObj [(''case_summary'',
              JObj [(''case_type'', JStr ''Market entry''),
                    (''overall_summary'', JStr ''A structured opening.''),
                    (''user_confidence'', JStr ''High'')]),
           (''key_events'',
              JArr [JObj [(''speaker'', JStr ''assistant''), (''message'', JStr ''Welcome.'')],
                    JObj [(''timestamp'', JStr ''00:12''), (''speaker'', JStr ''user''),
                          (''message'', JStr ''Thank you.'')]]),
           (''coaching_feedback'',
              JObj [(''strengths'', JArr [JStr ''Clear structure'']),
                    (''areas_for_improvement'', JArr []),
                    (''next_practice_focus'', JArr [JStr ''Mental maths''])]),
           (''action_items'', JArr [JStr ''Practise mental maths'']),
           (''sentiment'', JObj [(''user'', JStr ''calm''), (''assistant'', JStr ''neutral'')])]"

definition analysis_ready :: js where
  "analysis_ready =
     JObj [(''conversation_id'', JStr ''c1''), (''status'', JStr ''ready''),
           (''updated_at'', JStr ''2025-01-01T00:00:09Z''), (''analysis'', report_c1)]"

text \<open>A ready answer that is not of the declared type: its analysis has no
  \<^verbatim>\<open>case_summary\<close>.\<close>

definition analysis_without_summary :: js where
  "analysis_without_summary =
     JObj [(''conversation_id'', JStr ''c1''), (''status'', JStr ''ready''),
           (''updated_at'', JStr ''2025-01-01T00:00:09Z''),
           (''analysis'', JObj [(''action_items'', JArr [JStr ''Practise mental maths''])])]"

text \<open>The events that are not an action of the consumer: time passes, a request ends.\<close>

fun unattended :: "event \<Rightarrow> bool" where
  "unattended (Tick d) = True"
| "unattended (Respond i out) = True"
| "unattended (Navigate cid) = False"
| "unattended Unmount = False"

text \<open>
  A backend that answers the requests of the page from a sequence of payloads: the
  request that left the page as number \<open>k\<close> (from 0) gets the answer \<open>answers ! k\<close>, with
  an OK status. What then happens to a page that the consumer leaves alone is a schedule:
  time passes (\<open>Wait\<close>), or the answer to request number \<open>k\<close> arrives (\<open>Deliver\<close>; nothing
  arrives for a request that has not left or that the sequence has no answer for, and a
  request is answered once).
\<close>

datatype stimulus = Wait nat | Deliver nat

definition serve :: "js list \<Rightarrow> stimulus \<Rightarrow> analysis_page \<Rightarrow> exn + analysis_page" where
  "serve answers w s =
     (case w of
        Wait d \<Rightarrow> step (Tick d) s
      | Deliver k \<Rightarrow>
          if k < length answers \<and> k < length (issued s) then
            step (Respond (request_id (issued s ! k)) (Resolved True (Some (answers ! k)))) s
          else Inr s)"

fun serve_run :: "js list \<Rightarrow> stimulus list \<Rightarrow> analysis_page \<Rightarrow> exn + analysis_page" where
  "serve_run answers [] s = Inr s"
| "serve_run answers (w # ws) s =
     (case serve answers w s of Inl x \<Rightarrow> Inl x | Inr s' \<Rightarrow> serve_run answers ws s')"

text \<open>What the page renders at the start and after each step of a schedule.\<close>

fun serve_trace :: "js list \<Rightarrow> stimulus list \<Rightarrow> analysis_page \<Rightarrow> (exn + view) list" where
  "serve_trace answers [] s = [AnalysisContent s]"
| "serve_trace answers (w # ws) s =
     AnalysisContent s #
       (case serve answers w s of Inl x \<Rightarrow> [] | Inr s' \<Rightarrow> serve_trace answers ws s')"

text \<open>The render state that a render surfaces.\<close>

datatype render_state =
    Crashed | NoConversation | Loading | Failed | Nothing | Pending | ReadyWithoutData | Ready

fun surfaced :: "exn + view \<Rightarrow> render_state" where
  "surfaced (Inl e) = Crashed"
| "surfaced (Inr NoConversationCard) = NoConversation"
| "surfaced (Inr LoaderCard) = Loading"
| "surfaced (Inr (ErrorCard m)) = Failed"
| "surfaced (Inr Blank) = Nothing"
| "surfaced (Inr (PendingCard c u)) = Pending"
| "surfaced (Inr NoDataCard) = ReadyWithoutData"
| "surfaced (Inr (ReportCard a)) = Ready"

text \<open>
  The states of a page that was opened for \<open>cid\<close> and is served the answers \<open>ps\<close>, by stage:
  0 the first request is under way; 1 and 3 the retry timer runs after the first and the
  second answer (due at \<open>d1\<close> and \<open>d2\<close>); 2 and 4 the request of the first and of the
  second retry is under way; 5 the third answer is in. The closure of the effect is 1,
  the requests are 2, 4 and 6, the timers 3 and 5.
\<close>

definition normalized :: "js \<Rightarrow> AnalysisStatus" where
  "normalized p =
     \<lparr> conversationId = get p ''conversation_id'', status = get p ''status'',
       updatedAt = get p ''updated_at'', analysis = coalesce (get p ''analysis'') JNull \<rparr>"

definition request_no :: "string \<Rightarrow> nat \<Rightarrow> nat \<Rightarrow> request" where
  "request_no cid k moment =
     \<lparr> request_id = 2 * k + 2, request_owner = 1, withSpinner = (k = 0),
       url = ''/api/interview-analysis/'' @ cid, issued_at = moment \<rparr>"

definition stage :: "nat \<Rightarrow> string \<Rightarrow> js list \<Rightarrow> nat \<Rightarrow> nat \<Rightarrow> nat \<Rightarrow> analysis_page" where
  "stage n cid ps d1 d2 t =
     \<lparr> search_conversationId = Some cid,
       st_status = (if n = 0 then None else Some (normalized (ps ! ((n - 1) div 2)))),
       st_isLoading = (n = 0),
       st_error = None,
       closures = (\<lambda>c. None)
         (1 \<mapsto> \<lparr> captured_conversationId = cid, isCancelled = False,
                  timeout = (if n = 0 \<or> n = 5 then None else if n \<le> 2 then Some 3 else Some 5) \<rparr>),
       current = Some 1,
       timers = (if n = 1 then [\<lparr> timer_id = 3, due = d1, timer_owner = 1 \<rparr>]
                 else if n = 3 then [\<lparr> timer_id = 5, due = d2, timer_owner = 1 \<rparr>]
                 else []),
       inflight = (if n = 0 then [request_no cid 0 0]
                   else if n = 2 then [request_no cid 1 d1]
                   else if n = 4 then [request_no cid 2 d2]
                   else []),
       issued = take (n div 2 + 1) [request_no cid 0 0, request_no cid 1 d1, request_no cid 2 d2],
       clock = t,
       next_id = (if n = 5 then 7 else n + 3),
       unmounted = False \<rparr>"

text \<open>The render of each stage.\<close>

definition stage_view :: "nat \<Rightarrow> js list \<Rightarrow> view" where
  "stage_view n ps =
     (if n = 0 then LoaderCard
      else if n = 5 then ReportCard (get (ps ! 2) ''analysis'')
      else PendingCard (get (ps ! ((n - 1) div 2)) ''conversation_id'')
                       (get (ps ! ((n - 1) div 2)) ''updated_at''))"


section \<open>Properties of the forwarding boundary\<close>

lemma NextResponse_json_502:
  "NextResponse_json b 502 = Inr \<lparr> res_status = 502, res_body = b \<rparr>"
  by (simp add: NextResponse_json_def null_body_status_def)

lemma NextResponse_json_400:
  "NextResponse_json b 400 = Inr \<lparr> res_status = 400, res_body = b \<rparr>"
  by (simp add: NextResponse_json_def null_body_status_def)

lemma NextResponse_json_relayed:
  "200 \<le> st \<Longrightarrow> st \<le> 599 \<Longrightarrow> \<not> null_body_status st \<Longrightarrow>
   NextResponse_json b st = Inr \<lparr> res_status = st, res_body = b \<rparr>"
  by (simp add: NextResponse_json_def)

text \<open>The \<^verbatim>\<open>try\<close>/\<^verbatim>\<open>catch\<close> the three handlers end with, by what the upstream did.\<close>

lemma relay_cases:
  "try_catch
     (case forwardToBackend net env path init of
        Inl e \<Rightarrow> Inl e
      | Inr (r, payload) \<Rightarrow> NextResponse_json payload (http_status r))
     (\<lambda>error. NextResponse_json (unreachable_envelope error) 502) =
   (case net (BACKEND_BASE_URL env @ path) init of
      Inl e \<Rightarrow> Inr \<lparr> res_status = 502, res_body = unreachable_envelope e \<rparr>
    | Inr r \<Rightarrow>
        (case NextResponse_json (parseJsonResponse r) (http_status r) of
           Inl e \<Rightarrow> Inr \<lparr> res_status = 502, res_body = unreachable_envelope e \<rparr>
         | Inr x \<Rightarrow> Inr x))"
  by (simp add: try_catch_def forwardToBackend_def NextResponse_json_502 split: sum.splits)

lemma POST_sessions_cases:
  "POST_sessions net env (Some payload) =
   (case net (BACKEND_BASE_URL env @ ''/api/sessions'')
           (Some \<lparr> http_method = ''POST'', headers = [(''Content-Type'', ''application/json'')],
                   body = Some payload \<rparr>) of
      Inl e \<Rightarrow> Inr \<lparr> res_status = 502, res_body = unreachable_envelope e \<rparr>
    | Inr r \<Rightarrow>
        (case NextResponse_json (parseJsonResponse r) (http_status r) of
           Inl e \<Rightarrow> Inr \<lparr> res_status = 502, res_body = unreachable_envelope e \<rparr>
         | Inr x \<Rightarrow> Inr x))"
  by (simp add: POST_sessions_def relay_cases)

lemma POST_start_cases:
  "sid \<noteq> [] \<Longrightarrow>
   POST_start net env sid =
   (case net (BACKEND_BASE_URL env @ ''/api/sessions/'' @ sid @ ''/start'')
           (Some \<lparr> http_method = ''POST'', headers = [], body = None \<rparr>) of
      Inl e \<Rightarrow> Inr \<lparr> res_status = 502, res_body = unreachable_envelope e \<rparr>
    | Inr r \<Rightarrow>
        (case NextResponse_json (parseJsonResponse r) (http_status r) of
           Inl e \<Rightarrow> Inr \<lparr> res_status = 502, res_body = unreachable_envelope e \<rparr>
         | Inr x \<Rightarrow> Inr x))"
  by (simp add: POST_start_def relay_cases)

lemma GET_analysis_cases:
  "cid \<noteq> [] \<Longrightarrow>
   GET_analysis net env (Some cid) =
   (case net (BACKEND_BASE_URL env @ ''/api/interviews/'' @ encodeURIComponent cid @ ''/analysis'')
           None of
      Inl e \<Rightarrow> Inr \<lparr> res_status = 502, res_body = unreachable_envelope e \<rparr>
    | Inr r \<Rightarrow>
        (case NextResponse_json (parseJsonResponse r) (http_status r) of
           Inl e \<Rightarrow> Inr \<lparr> res_status = 502, res_body = unreachable_envelope e \<rparr>
         | Inr x \<Rightarrow> Inr x))"
  by (simp add: GET_analysis_def relay_cases)

lemma handlers_total:
  "(\<exists>r. POST_sessions net env req = Inr r) \<and>
   (\<exists>r. POST_start net env sid = Inr r) \<and>
   (\<exists>r. GET_analysis net env ocid = Inr r)"
  by (auto simp: POST_sessions_def POST_start_def GET_analysis_def relay_cases
      NextResponse_json_400 split: option.splits sum.splits)

text \<open>
  C2, as the specification states it, asks for status 502 when the upstream body is not
  valid JSON. An upstream that answers 200 with such a body gets its 200 relayed, with the
  fabricated body.
\<close>

theorem malformed_body_keeps_upstream_status:
  "POST_sessions malformed_upstream None (Some (JObj [])) =
     Inr \<lparr> res_status = 200,
           res_body = JObj [(''message'', JStr ''Unexpected backend response'')] \<rparr> \<and>
   POST_sessions malformed_upstream None (Some (JObj [])) \<noteq>
     Inr \<lparr> res_status = 502,
           res_body = JObj [(''message'', JStr ''Unexpected backend response'')] \<rparr>"
  by (simp add: POST_sessions_cases malformed_upstream_def parseJsonResponse_def
      NextResponse_json_def null_body_status_def)

text \<open>
  C2, amended. For each of the three handlers, on a request that is forwarded: when the
  upstream cannot be reached, the answer is the unable-to-reach envelope with status 502;
  when the upstream body is not valid JSON and the upstream status may carry a body (200
  to 599, not 204, 205 or 304), the answer is the body
  \<^verbatim>\<open>{"message": "Unexpected backend response"}\<close> with the status of the upstream. And
  every request, forwarded or not, is answered by a JSON response: no exception leaves a
  handler.
\<close>

theorem forwarding_boundary_fallback:
  "(net (BACKEND_BASE_URL env @ ''/api/sessions'')
        (Some \<lparr> http_method = ''POST'', headers = [(''Content-Type'', ''application/json'')],
                body = Some payload \<rparr>) = Inl e \<longrightarrow>
      POST_sessions net env (Some payload) =
        Inr \<lparr> res_status = 502, res_body = unreachable_envelope e \<rparr>) \<and>
   (net (BACKEND_BASE_URL env @ ''/api/sessions'')
        (Some \<lparr> http_method = ''POST'', headers = [(''Content-Type'', ''application/json'')],
                body = Some payload \<rparr>) = Inr \<lparr> http_status = st, json = None \<rparr> \<and>
    200 \<le> st \<and> st \<le> 599 \<and> \<not> null_body_status st \<longrightarrow>
      POST_sessions net env (Some payload) =
        Inr \<lparr> res_status = st,
              res_body = JObj [(''message'', JStr ''Unexpected backend response'')] \<rparr>) \<and>
   (sid \<noteq> [] \<and>
    net (BACKEND_BASE_URL env @ ''/api/sessions/'' @ sid @ ''/start'')
        (Some \<lparr> http_method = ''POST'', headers = [], body = None \<rparr>) = Inl e \<longrightarrow>
      POST_start net env sid =
        Inr \<lparr> res_status = 502, res_body = unreachable_envelope e \<rparr>) \<and>
   (sid \<noteq> [] \<and>
    net (BACKEND_BASE_URL env @ ''/api/sessions/'' @ sid @ ''/start'')
        (Some \<lparr> http_method = ''POST'', headers = [], body = None \<rparr>) =
      Inr \<lparr> http_status = st, json = None \<rparr> \<and>
    200 \<le> st \<and> st \<le> 599 \<and> \<not> null_body_status st \<longrightarrow>
      POST_start net env sid =
        Inr \<lparr> res_status = st,
              res_body = JObj [(''message'', JStr ''Unexpected backend response'')] \<rparr>) \<and>
   (cid \<noteq> [] \<and>
    net (BACKEND_BASE_URL env @ ''/api/interviews/'' @ encodeURIComponent cid @ ''/analysis'')
        None = Inl e \<longrightarrow>
      GET_analysis net env (Some cid) =
        Inr \<lparr> res_status = 502, res_body = unreachable_envelope e \<rparr>) \<and>
   (cid \<noteq> [] \<and>
    net (BACKEND_BASE_URL env @ ''/api/interviews/'' @ encodeURIComponent cid @ ''/analysis'')
        None = Inr \<lparr> http_status = st, json = None \<rparr> \<and>
    200 \<le> st \<and> st \<le> 599 \<and> \<not> null_body_status st \<longrightarrow>
      GET_analysis net env (Some cid) =
        Inr \<lparr> res_status = st,
              res_body = JObj [(''message'', JStr ''Unexpected backend response'')] \<rparr>) \<and>
   (\<exists>r. POST_sessions net env req = Inr r) \<and>
   (\<exists>r. POST_start net env sid' = Inr r) \<and>
   (\<exists>r. GET_analysis net env ocid = Inr r)"
proof -
  have fallback: "200 \<le> st \<Longrightarrow> st \<le> 599 \<Longrightarrow> \<not> null_body_status st \<Longrightarrow>
      NextResponse_json (parseJsonResponse \<lparr> http_status = st, json = None \<rparr>) st =
        Inr \<lparr> res_status = st,
              res_body = JObj [(''message'', JStr ''Unexpected backend response'')] \<rparr>"
    by (simp add: NextResponse_json_relayed parseJsonResponse_def)
  show ?thesis
    using handlers_total [of net env req sid' ocid]
    by (simp add: POST_sessions_cases POST_start_cases GET_analysis_cases fallback)
qed

theorem forwarding_boundary_fallback_witness:
  "POST_sessions unreachable_upstream None (Some (JObj [])) =
     Inr \<lparr> res_status = 502, res_body = unreachable_envelope (Error ''fetch failed'') \<rparr> \<and>
   POST_start unreachable_upstream None ''s1'' =
     Inr \<lparr> res_status = 502, res_body = unreachable_envelope (Error ''fetch failed'') \<rparr> \<and>
   GET_analysis unreachable_upstream None (Some ''c1'') =
     Inr \<lparr> res_status = 502, res_body = unreachable_envelope (Error ''fetch failed'') \<rparr> \<and>
   POST_sessions malformed_upstream None (Some (JObj [])) =
     Inr \<lparr> res_status = 200,
           res_body = JObj [(''message'', JStr ''Unexpected backend response'')] \<rparr> \<and>
   POST_start malformed_upstream None ''s1'' =
     Inr \<lparr> res_status = 200,
           res_body = JObj [(''message'', JStr ''Unexpected backend response'')] \<rparr> \<and>
   GET_analysis malformed_upstream None (Some ''c1'') =
     Inr \<lparr> res_status = 200,
           res_body = JObj [(''message'', JStr ''Unexpected backend response'')] \<rparr>"
  using forwarding_boundary_fallback
          [where net = unreachable_upstream and env = None and payload = "JObj []"
             and e = "Error ''fetch failed''" and sid = "''s1''" and cid = "''c1''"]
        forwarding_boundary_fallback
          [where net = malformed_upstream and env = None and payload = "JObj []"
             and st = 200 and sid = "''s1''" and cid = "''c1''"]
  by (simp add: unreachable_upstream_def malformed_upstream_def null_body_status_def)


section \<open>Properties of the normalisation\<close>

text \<open>
  C3. A backend payload with \<^verbatim>\<open>conversation_id\<close> \<^verbatim>\<open>"c1"\<close>, status \<^verbatim>\<open>"ready"\<close>, some
  \<^verbatim>\<open>updated_at\<close> string and an analysis is normalised to the client view with these
  four values under the camel-case names, the analysis unchanged. On every payload other
  than \<^verbatim>\<open>null\<close> and \<^verbatim>\<open>undefined\<close> the normalisation returns, field by field, and a
  missing or \<^verbatim>\<open>null\<close> analysis becomes \<^verbatim>\<open>null\<close>.
\<close>

theorem normalizeResponse_round_trip:
  "(get data ''conversation_id'' = JStr ''c1'' \<and> get data ''status'' = JStr ''ready'' \<and>
    get data ''updated_at'' = JStr u \<and> get data ''analysis'' = a \<and> \<not> nullish a \<longrightarrow>
      normalizeResponse data =
        Inr \<lparr> conversationId = JStr ''c1'', status = JStr ''ready'', updatedAt = JStr u,
              analysis = a \<rparr>) \<and>
   (\<not> nullish data \<longrightarrow>
      normalizeResponse data =
        Inr \<lparr> conversationId = get data ''conversation_id'', status = get data ''status'',
              updatedAt = get data ''updated_at'',
              analysis = (if nullish (get data ''analysis'') then JNull
                          else get data ''analysis'') \<rparr>)"
  by (cases data) (auto simp: normalizeResponse_def get_strict_def coalesce_def get_def)

theorem normalizeResponse_round_trip_witness:
  "normalizeResponse
     (JObj [(''conversation_id'', JStr ''c1''), (''status'', JStr ''ready''),
            (''updated_at'', JStr ''2025-01-01T00:00:00Z''),
            (''analysis'', JObj [(''action_items'', JArr [JStr ''Practise mental maths''])])]) =
     Inr \<lparr> conversationId = JStr ''c1'', status = JStr ''ready'',
           updatedAt = JStr ''2025-01-01T00:00:00Z'',
           analysis = JObj [(''action_items'', JArr [JStr ''Practise mental maths''])] \<rparr> \<and>
   normalizeResponse (JObj [(''status'', JStr ''pending''), (''analysis'', JNull)]) =
     Inr \<lparr> conversationId = JUndefined, status = JStr ''pending'', updatedAt = JUndefined,
           analysis = JNull \<rparr>"
  using normalizeResponse_round_trip
          [where data = "JObj [(''conversation_id'', JStr ''c1''), (''status'', JStr ''ready''),
                               (''updated_at'', JStr ''2025-01-01T00:00:00Z''),
                               (''analysis'',
                                JObj [(''action_items'', JArr [JStr ''Practise mental maths''])])]"
             and u = "''2025-01-01T00:00:00Z''"
             and a = "JObj [(''action_items'', JArr [JStr ''Practise mental maths''])]"]
        normalizeResponse_round_trip
          [where data = "JObj [(''status'', JStr ''pending''), (''analysis'', JNull)]"]
  by (simp add: get_def)


section \<open>Properties of the analysis retrieval\<close>

lemma cancelled_cong: "closures s' = closures s \<Longrightarrow> cancelled c s' = cancelled c s"
  by (simp add: cancelled_def)

lemma timeout_of_cong: "closures s' = closures s \<Longrightarrow> timeout_of c s' = timeout_of c s"
  by (simp add: timeout_of_def)

lemma inv_cong:
  "timers s' = timers s \<Longrightarrow> closures s' = closures s \<Longrightarrow> current s' = current s \<Longrightarrow>
   reconciler_inv s' = reconciler_inv s"
  by (simp add: reconciler_inv_def cancelled_def timeout_of_def)

lemma inv_live: "reconciler_inv s \<Longrightarrow> \<not> cancelled c s \<Longrightarrow> current s = Some c"
  by (simp add: reconciler_inv_def)

lemma inv_length: "reconciler_inv s \<Longrightarrow> length (timers s) \<le> 1"
  by (simp add: reconciler_inv_def)

lemma inv_timer:
  "reconciler_inv s \<Longrightarrow> t \<in> set (timers s) \<Longrightarrow>
   current s = Some (timer_owner t) \<and> timeout_of (timer_owner t) s = Some (timer_id t)"
  by (simp add: reconciler_inv_def)

lemma quiet_inv: "timers s = [] \<Longrightarrow> (\<forall>c. cancelled c s) \<Longrightarrow> reconciler_inv s"
  by (simp add: reconciler_inv_def)

lemma inv_no_current:
  assumes "reconciler_inv s" "current s = None"
  shows "timers s = []" and "cancelled c s"
proof -
  show "timers s = []"
  proof (cases "timers s")
    case Nil
    then show ?thesis .
  next
    case (Cons t ts)
    then have "t \<in> set (timers s)" by simp
    from inv_timer [OF assms(1) this] assms(2) show ?thesis by simp
  qed
  from inv_live [OF assms(1), of c] assms(2) show "cancelled c s" by auto
qed

lemma inv_timers_none:
  assumes "reconciler_inv s" "timeout_of c s = None" "current s = Some c"
  shows "timers s = []"
proof (cases "timers s")
  case Nil
  then show ?thesis .
next
  case (Cons t ts)
  then have "t \<in> set (timers s)" by simp
  from inv_timer [OF assms(1) this] assms(2,3) show ?thesis by simp
qed

lemma inv_timers_cleared:
  assumes "reconciler_inv s" "timeout_of c s = Some i" "current s = Some c"
  shows "filter (\<lambda>x. timer_id x \<noteq> i) (timers s) = []"
proof -
  have "timer_id t = i" if "t \<in> set (timers s)" for t
    using inv_timer [OF assms(1) that] assms(2,3) by simp
  then show ?thesis by (simp add: filter_empty_conv)
qed


text \<open>After the clean-up nothing is live: no timer, no closure that is not cancelled.\<close>

lemma cleanup_fields [simp]:
  "st_status (cleanup s) = st_status s" "st_error (cleanup s) = st_error s"
  "st_isLoading (cleanup s) = st_isLoading s" "inflight (cleanup s) = inflight s"
  "issued (cleanup s) = issued s" "clock (cleanup s) = clock s" "next_id (cleanup s) = next_id s"
  "unmounted (cleanup s) = unmounted s" "search_conversationId (cleanup s) = search_conversationId s"
  "current (cleanup s) = None"
  by (simp_all add: cleanup_def clearTimeout_def Let_def split: option.splits)

lemma cleanup_cancels: "cancelled c s \<Longrightarrow> cancelled c (cleanup s)"
  by (simp add: cleanup_def clearTimeout_def cancelled_def Let_def split: option.splits)

lemma cleanup_cancels_current: "current s = Some c \<Longrightarrow> cancelled c (cleanup s)"
  by (simp add: cleanup_def clearTimeout_def cancelled_def Let_def split: option.splits)

lemma cleanup_timers:
  "timers (cleanup s) =
     (case current s of
        None \<Rightarrow> timers s
      | Some c \<Rightarrow>
          (case timeout_of c s of
             None \<Rightarrow> timers s
           | Some i \<Rightarrow> filter (\<lambda>x. timer_id x \<noteq> i) (timers s)))"
  by (simp add: cleanup_def clearTimeout_def timeout_of_def Let_def split: option.splits)

lemma cleanup_quiet:
  assumes "reconciler_inv s"
  shows "timers (cleanup s) = []" and "cancelled c (cleanup s)"
proof -
  show "timers (cleanup s) = []"
  proof (cases "current s")
    case None
    with inv_no_current(1) [OF assms None] show ?thesis by (simp add: cleanup_timers)
  next
    case (Some c)
    show ?thesis
    proof (cases "timeout_of c s")
      case None
      with inv_timers_none [OF assms None Some] Some show ?thesis by (simp add: cleanup_timers)
    next
      case (Some i)
      with inv_timers_cleared [OF assms Some \<open>current s = Some c\<close>] \<open>current s = Some c\<close>
      show ?thesis by (simp add: cleanup_timers)
    qed
  qed
  show "cancelled c (cleanup s)"
  proof (cases "current s = Some c")
    case True
    then show ?thesis by (rule cleanup_cancels_current)
  next
    case False
    with inv_live [OF assms, of c] have "cancelled c s" by auto
    then show ?thesis by (rule cleanup_cancels)
  qed
qed

lemma fetchAnalysis_fields [simp]:
  "timers (fetchAnalysis c w s) = timers s" "closures (fetchAnalysis c w s) = closures s"
  "current (fetchAnalysis c w s) = current s" "st_status (fetchAnalysis c w s) = st_status s"
  "st_error (fetchAnalysis c w s) = st_error s" "clock (fetchAnalysis c w s) = clock s"
  "unmounted (fetchAnalysis c w s) = unmounted s"
  "search_conversationId (fetchAnalysis c w s) = search_conversationId s"
  by (simp_all add: fetchAnalysis_def Let_def split: option.splits)

lemma effect_fields [simp]:
  "timers (effect s) = timers s" "st_status (effect s) = None" "st_error (effect s) = None"
  "clock (effect s) = clock s" "unmounted (effect s) = unmounted s"
  "search_conversationId (effect s) = search_conversationId s"
  by (simp_all add: effect_def Let_def split: option.splits)

lemma effect_live:
  assumes "\<forall>c. cancelled c s" "\<not> cancelled c (effect s)"
  shows "current (effect s) = Some c"
proof (cases "search_conversationId s")
  case None
  with assms show ?thesis by (simp add: effect_def cancelled_def)
next
  case (Some cid)
  show ?thesis
  proof (cases "cid = []")
    case True
    with Some assms show ?thesis by (simp add: effect_def cancelled_def)
  next
    case False
    have "cancelled c s" using assms(1) by simp
    with Some False assms(2) show ?thesis
      by (simp add: effect_def Let_def cancelled_def split: if_splits)
  qed
qed

lemma effect_inv:
  assumes "timers s = []" "\<forall>c. cancelled c s"
  shows "reconciler_inv (effect s)"
  using assms effect_live [OF assms(2)] by (simp add: reconciler_inv_def)

lemma fire_inv:
  assumes "reconciler_inv s"
  shows "reconciler_inv (fire t s)"
proof -
  let ?ts = "filter (\<lambda>x. timer_id x \<noteq> timer_id t) (timers s)"
  let ?s1 = "s\<lparr> timers := ?ts, clock := due t \<rparr>"
  have "length ?ts \<le> length (timers s)" by simp
  with inv_length [OF assms] have len: "length ?ts \<le> 1" by linarith
  have tm: "x \<in> set ?ts \<Longrightarrow>
      current ?s1 = Some (timer_owner x) \<and> timeout_of (timer_owner x) ?s1 = Some (timer_id x)" for x
    using inv_timer [OF assms, of x] by (simp add: timeout_of_def)
  have lv: "\<not> cancelled c ?s1 \<Longrightarrow> current ?s1 = Some c" for c
    using inv_live [OF assms, of c] by (simp add: cancelled_def)
  have "reconciler_inv ?s1"
    unfolding reconciler_inv_def using len tm lv by simp
  moreover have "reconciler_inv (fetchAnalysis (timer_owner t) False ?s1) = reconciler_inv ?s1"
    by (rule inv_cong) simp_all
  ultimately show ?thesis by (simp add: fire_def)
qed

lemma fold_fire_inv: "reconciler_inv s \<Longrightarrow> reconciler_inv (fold fire ts s)"
  by (induction ts arbitrary: s) (simp_all add: fire_inv)

lemma normalizeResponse_truthy:
  "truthy payload \<Longrightarrow>
   normalizeResponse payload =
     Inr \<lparr> conversationId = get payload ''conversation_id'', status = get payload ''status'',
           updatedAt = get payload ''updated_at'',
           analysis = coalesce (get payload ''analysis'') JNull \<rparr>"
  by (cases payload) (simp_all add: normalizeResponse_def get_strict_def)


lemma cancelled_updates [simp]:
  "cancelled c (s\<lparr> st_status := a \<rparr>) = cancelled c s"
  "cancelled c (s\<lparr> st_error := b \<rparr>) = cancelled c s"
  "cancelled c (s\<lparr> st_isLoading := d \<rparr>) = cancelled c s"
  "cancelled c (s\<lparr> inflight := e \<rparr>) = cancelled c s"
  "cancelled c (s\<lparr> timers := f \<rparr>) = cancelled c s"
  "cancelled c (s\<lparr> next_id := g \<rparr>) = cancelled c s"
  "cancelled c (s\<lparr> clock := h \<rparr>) = cancelled c s"
  by (simp_all add: cancelled_def)

lemma timeout_of_updates [simp]:
  "timeout_of c (s\<lparr> st_status := a \<rparr>) = timeout_of c s"
  "timeout_of c (s\<lparr> st_error := b \<rparr>) = timeout_of c s"
  "timeout_of c (s\<lparr> st_isLoading := d \<rparr>) = timeout_of c s"
  "timeout_of c (s\<lparr> inflight := e \<rparr>) = timeout_of c s"
  "timeout_of c (s\<lparr> timers := f \<rparr>) = timeout_of c s"
  "timeout_of c (s\<lparr> next_id := g \<rparr>) = timeout_of c s"
  "timeout_of c (s\<lparr> clock := h \<rparr>) = timeout_of c s"
  by (simp_all add: timeout_of_def)

lemma inv_updates [simp]:
  "reconciler_inv (s\<lparr> st_status := a \<rparr>) = reconciler_inv s"
  "reconciler_inv (s\<lparr> st_error := b \<rparr>) = reconciler_inv s"
  "reconciler_inv (s\<lparr> st_isLoading := d \<rparr>) = reconciler_inv s"
  "reconciler_inv (s\<lparr> inflight := e \<rparr>) = reconciler_inv s"
  "reconciler_inv (s\<lparr> clock := h \<rparr>) = reconciler_inv s"
  by (simp_all add: reconciler_inv_def)

lemma cancelled_set_timeout_var [simp]:
  "cancelled c' (set_timeout_var c v s) = cancelled c' s"
  by (auto simp: set_timeout_var_def cancelled_def split: option.splits)

lemma cancelled_clearTimeout [simp]: "cancelled c (clearTimeout t s) = cancelled c s"
  by (simp add: clearTimeout_def)

text \<open>The recorded timer is cleared: the step of the success path before the scheduling.\<close>

lemma clear_recorded:
  assumes "reconciler_inv s" "\<not> cancelled c s"
  defines "s2 \<equiv> (case timeout_of c s of
                    None \<Rightarrow> s
                  | Some t \<Rightarrow> set_timeout_var c None (clearTimeout t s))"
  shows "timers s2 = []" "current s2 = Some c" "\<not> cancelled c s2"
    "\<And>c'. \<not> cancelled c' s2 \<Longrightarrow> c' = c"
    "next_id s2 = next_id s" "clock s2 = clock s" "st_status s2 = st_status s"
    "st_error s2 = st_error s" "st_isLoading s2 = st_isLoading s" "inflight s2 = inflight s"
    "issued s2 = issued s"
proof -
  from inv_live [OF assms(1,2)] have cur: "current s = Some c" .
  from assms(2) obtain cl where cl: "closures s c = Some cl" "\<not> isCancelled cl"
    by (auto simp: cancelled_def split: option.splits)
  show "timers s2 = []"
  proof (cases "timeout_of c s")
    case None
    from inv_timers_none [OF assms(1) None cur] None show ?thesis by (simp add: s2_def)
  next
    case (Some t)
    from inv_timers_cleared [OF assms(1) Some cur] Some cl show ?thesis
      by (simp add: s2_def set_timeout_var_def clearTimeout_def)
  qed
  show "current s2 = Some c"
    using cur by (simp add: s2_def set_timeout_var_def clearTimeout_def split: option.splits)
  show "\<not> cancelled c s2"
    using assms(2) by (simp add: s2_def split: option.splits)
  show "c' = c" if "\<not> cancelled c' s2" for c'
  proof -
    from that have "\<not> cancelled c' s"
      by (simp add: s2_def split: option.splits)
    from inv_live [OF assms(1) this] cur show ?thesis by simp
  qed
  show "next_id s2 = next_id s" "clock s2 = clock s" "st_status s2 = st_status s"
    "st_error s2 = st_error s" "st_isLoading s2 = st_isLoading s" "inflight s2 = inflight s"
    "issued s2 = issued s"
    by (simp_all add: s2_def set_timeout_var_def clearTimeout_def split: option.splits)
qed

lemma schedule_retry_props:
  assumes "timers s = []" "current s = Some c" "\<not> cancelled c s"
    and "\<And>c'. \<not> cancelled c' s \<Longrightarrow> c' = c"
  shows "reconciler_inv (schedule_retry c s)"
    and "timers (schedule_retry c s) =
           [\<lparr> timer_id = next_id s, due = clock s + RETRY_DELAY, timer_owner = c \<rparr>]"
    and "st_status (schedule_retry c s) = st_status s"
    and "st_error (schedule_retry c s) = st_error s"
    and "st_isLoading (schedule_retry c s) = st_isLoading s"
    and "issued (schedule_retry c s) = issued s"
    and "inflight (schedule_retry c s) = inflight s"
proof -
  from assms(3) obtain cl where cl: "closures s c = Some cl" "\<not> isCancelled cl"
    by (auto simp: cancelled_def split: option.splits)
  show tm: "timers (schedule_retry c s) =
           [\<lparr> timer_id = next_id s, due = clock s + RETRY_DELAY, timer_owner = c \<rparr>]"
    using assms(1) cl by (simp add: schedule_retry_def set_timeout_var_def)
  have cur: "current (schedule_retry c s) = Some c"
    using assms(2) cl by (simp add: schedule_retry_def set_timeout_var_def)
  have rec: "timeout_of c (schedule_retry c s) = Some (next_id s)"
    using cl by (simp add: schedule_retry_def set_timeout_var_def timeout_of_def)
  have live: "c' = c" if "\<not> cancelled c' (schedule_retry c s)" for c'
  proof -
    from that have "\<not> cancelled c' s"
      by (simp add: schedule_retry_def)
    then show ?thesis by (rule assms(4))
  qed
  show "reconciler_inv (schedule_retry c s)"
    unfolding reconciler_inv_def using tm cur rec live by auto
  show "st_status (schedule_retry c s) = st_status s"
    "st_error (schedule_retry c s) = st_error s"
    "st_isLoading (schedule_retry c s) = st_isLoading s"
    "issued (schedule_retry c s) = issued s"
    "inflight (schedule_retry c s) = inflight s"
    using cl by (simp_all add: schedule_retry_def set_timeout_var_def)
qed


lemma resume_failed:
  assumes "failed out"
  shows "fetchAnalysis_resume r out s =
     Inr (if cancelled (request_owner r) s then s
          else if withSpinner r then
            s\<lparr> st_error := Some (failure_message out), st_isLoading := False \<rparr>
          else s\<lparr> st_error := Some (failure_message out) \<rparr>)"
proof (cases out)
  case (Rejected e)
  then show ?thesis
    by (simp add: fetchAnalysis_resume_def fetchAnalysis_try_def fetchAnalysis_catch_def
        fetchAnalysis_finally_def try_catch_def failure_message_def)
next
  case (Resolved ok parsed)
  with assms have "\<not> ok \<or> \<not> truthy (case parsed of None \<Rightarrow> JNull | Some v \<Rightarrow> v)"
    by (simp add: failed_def)
  with Resolved show ?thesis
    by (simp add: fetchAnalysis_resume_def fetchAnalysis_try_def fetchAnalysis_catch_def
        fetchAnalysis_finally_def try_catch_def failure_message_def Let_def)
qed

lemma not_failed:
  "\<not> failed out \<Longrightarrow> \<exists>payload. out = Resolved True (Some payload) \<and> truthy payload"
  by (cases out) (auto simp: failed_def split: option.splits)

lemma resume_cancelled:
  assumes "truthy payload" "cancelled (request_owner r) s"
  shows "fetchAnalysis_resume r (Resolved True (Some payload)) s = Inr s"
  using assms
  by (simp add: fetchAnalysis_resume_def fetchAnalysis_try_def fetchAnalysis_finally_def
      try_catch_def)

lemma resume_live:
  assumes "truthy payload" "\<not> cancelled (request_owner r) s"
  shows "fetchAnalysis_resume r (Resolved True (Some payload)) s =
     Inr (fetchAnalysis_finally (request_owner r) (withSpinner r)
            (let s1 = s\<lparr> st_status :=
                          Some \<lparr> conversationId = get payload ''conversation_id'',
                                 status = get payload ''status'',
                                 updatedAt = get payload ''updated_at'',
                                 analysis = coalesce (get payload ''analysis'') JNull \<rparr>,
                        st_error := None \<rparr>;
                 s2 = (case timeout_of (request_owner r) s1 of
                         None \<Rightarrow> s1
                       | Some t \<Rightarrow> set_timeout_var (request_owner r) None (clearTimeout t s1))
             in if get payload ''status'' = JStr ''pending''
                then schedule_retry (request_owner r) s2 else s2))"
  using assms normalizeResponse_truthy [OF assms(1)]
  by (simp add: fetchAnalysis_resume_def fetchAnalysis_try_def try_catch_def Let_def)

lemma resume_total: "\<exists>s'. fetchAnalysis_resume r out s = Inr s'"
proof (cases "failed out")
  case True
  then show ?thesis by (simp add: resume_failed)
next
  case False
  with not_failed obtain payload where "out = Resolved True (Some payload)" "truthy payload"
    by blast
  then show ?thesis
    by (cases "cancelled (request_owner r) s") (simp_all add: resume_cancelled resume_live)
qed

lemma finally_inv [simp]:
  "reconciler_inv (fetchAnalysis_finally c w s) = reconciler_inv s"
  by (simp add: fetchAnalysis_finally_def)

lemma resume_inv:
  assumes "reconciler_inv s" "fetchAnalysis_resume r out s = Inr s'"
  shows "reconciler_inv s'"
proof (cases "failed out")
  case True
  with assms show ?thesis by (auto simp: resume_failed split: if_splits)
next
  case False
  with not_failed obtain payload where out: "out = Resolved True (Some payload)" "truthy payload"
    by blast
  show ?thesis
  proof (cases "cancelled (request_owner r) s")
    case True
    with assms out show ?thesis by (simp add: resume_cancelled)
  next
    case False
    let ?c = "request_owner r"
    let ?s1 = "s\<lparr> st_status :=
                    Some \<lparr> conversationId = get payload ''conversation_id'',
                           status = get payload ''status'',
                           updatedAt = get payload ''updated_at'',
                           analysis = coalesce (get payload ''analysis'') JNull \<rparr>,
                  st_error := None \<rparr>"
    let ?s2 = "case timeout_of ?c ?s1 of
                 None \<Rightarrow> ?s1
               | Some t \<Rightarrow> set_timeout_var ?c None (clearTimeout t ?s1)"
    have inv1: "reconciler_inv ?s1" using assms(1) by simp
    have live1: "\<not> cancelled ?c ?s1" using False by simp
    note c = clear_recorded [OF inv1 live1]
    have inv2: "reconciler_inv ?s2"
      unfolding reconciler_inv_def using c(1,2,4) by auto
    have inv3: "reconciler_inv (schedule_retry ?c ?s2)"
      using c(1,2,3,4) by (rule schedule_retry_props(1))
    from assms(2) out False
    have "s' = fetchAnalysis_finally ?c (withSpinner r)
                 (if get payload ''status'' = JStr ''pending'' then schedule_retry ?c ?s2 else ?s2)"
      by (simp add: resume_live Let_def)
    with inv2 inv3 show ?thesis by simp
  qed
qed

lemma step_total: "\<exists>s'. step e s = Inr s'"
  by (cases e) (auto simp: step_def resume_total split: option.splits)

lemma step_inv:
  assumes "reconciler_inv s" "step e s = Inr s'"
  shows "reconciler_inv s'"
proof (cases e)
  case (Navigate cid)
  show ?thesis
  proof (cases "unmounted s \<or> cid = search_conversationId s")
    case True
    with assms Navigate show ?thesis by (auto simp: step_def)
  next
    case False
    let ?s1 = "(cleanup s)\<lparr> search_conversationId := cid \<rparr>"
    from cleanup_quiet [OF assms(1)]
    have "timers ?s1 = []" "\<forall>c. cancelled c ?s1" by (simp_all add: cancelled_def)
    then have "reconciler_inv (effect ?s1)" by (rule effect_inv)
    with assms(2) Navigate False show ?thesis by (auto simp: step_def)
  qed
next
  case Unmount
  from cleanup_quiet [OF assms(1)]
  have "timers ((cleanup s)\<lparr> unmounted := True \<rparr>) = []"
    "\<forall>c. cancelled c ((cleanup s)\<lparr> unmounted := True \<rparr>)"
    by (simp_all add: cancelled_def)
  then have "reconciler_inv ((cleanup s)\<lparr> unmounted := True \<rparr>)" by (rule quiet_inv)
  with assms Unmount show ?thesis by (auto simp: step_def split: if_splits)
next
  case (Tick d)
  with assms fold_fire_inv [OF assms(1)] show ?thesis by (auto simp: step_def)
next
  case (Respond i out)
  show ?thesis
  proof (cases "find (\<lambda>r. request_id r = i) (inflight s)")
    case None
    with assms Respond show ?thesis by (simp add: step_def)
  next
    case (Some r)
    let ?s1 = "s\<lparr> inflight := filter (\<lambda>x. request_id x \<noteq> i) (inflight s) \<rparr>"
    from assms(1) have "reconciler_inv ?s1" by simp
    moreover from assms(2) Respond Some have "fetchAnalysis_resume r out ?s1 = Inr s'"
      by (simp add: step_def)
    ultimately show ?thesis by (rule resume_inv)
  qed
qed

lemma run_total: "\<exists>s'. run es s = Inr s'"
proof (induction es arbitrary: s)
  case Nil
  show ?case by simp
next
  case (Cons e es)
  from step_total obtain s1 where "step e s = Inr s1" by blast
  with Cons.IH [of s1] show ?case by simp
qed

lemma run_inv: "reconciler_inv s \<Longrightarrow> run es s = Inr s' \<Longrightarrow> reconciler_inv s'"
proof (induction es arbitrary: s)
  case Nil
  then show ?case by simp
next
  case (Cons e es)
  from step_total obtain s1 where s1: "step e s = Inr s1" by blast
  with Cons.prems have "run es s1 = Inr s'" by simp
  moreover from Cons.prems(1) s1 have "reconciler_inv s1" by (rule step_inv)
  ultimately show ?case by (rule Cons.IH [rotated])
qed

lemma mount_inv: "reconciler_inv (mount cid)"
  unfolding mount_def by (rule effect_inv) (simp_all add: cancelled_def)


lemma fresh_inv_fetchAnalysis: "fresh_inv s \<Longrightarrow> fresh_inv (fetchAnalysis c w s)"
  by (auto simp: fresh_inv_def fetchAnalysis_def Let_def less_Suc_eq split: option.splits)

lemma fresh_inv_cleanup: "fresh_inv s \<Longrightarrow> fresh_inv (cleanup s)"
  by (auto simp: fresh_inv_def cleanup_def clearTimeout_def Let_def split: option.splits if_splits)

lemma fresh_inv_param [simp]:
  "fresh_inv (s\<lparr> search_conversationId := x \<rparr>) = fresh_inv s"
  "fresh_inv (s\<lparr> unmounted := y \<rparr>) = fresh_inv s"
  "fresh_inv (s\<lparr> clock := z \<rparr>) = fresh_inv s"
  "fresh_inv (s\<lparr> st_status := a \<rparr>) = fresh_inv s"
  "fresh_inv (s\<lparr> st_error := b \<rparr>) = fresh_inv s"
  "fresh_inv (s\<lparr> st_isLoading := d \<rparr>) = fresh_inv s"
  "fresh_inv (s\<lparr> timers := f \<rparr>) = fresh_inv s"
  by (simp_all add: fresh_inv_def)

lemma fresh_inv_effect: "fresh_inv s \<Longrightarrow> fresh_inv (effect s)"
proof -
  assume f: "fresh_inv s"
  show ?thesis
  proof (cases "search_conversationId s")
    case None
    with f show ?thesis by (simp add: effect_def)
  next
    case (Some cid)
    show ?thesis
    proof (cases "cid = []")
      case True
      with Some f show ?thesis by (simp add: effect_def)
    next
      case False
      let ?s2 = "s\<lparr> st_status := None, st_error := None,
                    closures := (closures s)
                      (next_id s \<mapsto> \<lparr> captured_conversationId = cid, isCancelled = False,
                                      timeout = None \<rparr>),
                    current := Some (next_id s), next_id := Suc (next_id s) \<rparr>"
      from f have "fresh_inv ?s2" by (auto simp: fresh_inv_def less_Suc_eq)
      then have "fresh_inv (fetchAnalysis (next_id s) True ?s2)" by (rule fresh_inv_fetchAnalysis)
      with Some False show ?thesis by (simp add: effect_def Let_def)
    qed
  qed
qed

lemma fresh_inv_fire: "fresh_inv s \<Longrightarrow> fresh_inv (fire t s)"
  by (simp add: fire_def fresh_inv_fetchAnalysis)

lemma fresh_inv_fold_fire: "fresh_inv s \<Longrightarrow> fresh_inv (fold fire ts s)"
  by (induction ts arbitrary: s) (simp_all add: fresh_inv_fire)

lemma fresh_inv_set_timeout_var: "fresh_inv s \<Longrightarrow> fresh_inv (set_timeout_var c v s)"
  by (auto simp: fresh_inv_def set_timeout_var_def split: option.splits)

lemma fresh_inv_schedule_retry: "fresh_inv s \<Longrightarrow> fresh_inv (schedule_retry c s)"
proof -
  assume "fresh_inv s"
  then have "fresh_inv (s\<lparr> timers := timers s @
               [\<lparr> timer_id = next_id s, due = clock s + RETRY_DELAY, timer_owner = c \<rparr>],
             next_id := Suc (next_id s) \<rparr>)"
    by (auto simp: fresh_inv_def less_Suc_eq)
  then show ?thesis unfolding schedule_retry_def by (rule fresh_inv_set_timeout_var)
qed

lemma fresh_inv_finally [simp]: "fresh_inv (fetchAnalysis_finally c w s) = fresh_inv s"
  by (simp add: fetchAnalysis_finally_def)

lemma fresh_inv_resume:
  assumes "fresh_inv s" "fetchAnalysis_resume r out s = Inr s'"
  shows "fresh_inv s'"
proof (cases "failed out")
  case True
  with assms show ?thesis by (auto simp: resume_failed split: if_splits)
next
  case False
  with not_failed obtain payload where out: "out = Resolved True (Some payload)" "truthy payload"
    by blast
  show ?thesis
  proof (cases "cancelled (request_owner r) s")
    case True
    with assms out show ?thesis by (simp add: resume_cancelled)
  next
    case False
    let ?c = "request_owner r"
    let ?s1 = "s\<lparr> st_status :=
                    Some \<lparr> conversationId = get payload ''conversation_id'',
                           status = get payload ''status'',
                           updatedAt = get payload ''updated_at'',
                           analysis = coalesce (get payload ''analysis'') JNull \<rparr>,
                  st_error := None \<rparr>"
    let ?s2 = "case timeout_of ?c ?s1 of
                 None \<Rightarrow> ?s1
               | Some t \<Rightarrow> set_timeout_var ?c None (clearTimeout t ?s1)"
    have f1: "fresh_inv ?s1" using assms(1) by simp
    have f2: "fresh_inv ?s2"
      using f1 by (simp add: fresh_inv_set_timeout_var clearTimeout_def split: option.splits)
    have f3: "fresh_inv (schedule_retry ?c ?s2)" using f2 by (rule fresh_inv_schedule_retry)
    from assms(2) out False
    have "s' = fetchAnalysis_finally ?c (withSpinner r)
                 (if get payload ''status'' = JStr ''pending'' then schedule_retry ?c ?s2 else ?s2)"
      by (simp add: resume_live Let_def)
    with f2 f3 show ?thesis by simp
  qed
qed

lemma fresh_inv_step:
  assumes "fresh_inv s" "step e s = Inr s'"
  shows "fresh_inv s'"
proof (cases e)
  case (Navigate cid)
  with assms fresh_inv_effect [of "(cleanup s)\<lparr> search_conversationId := cid \<rparr>"]
  show ?thesis by (auto simp: step_def fresh_inv_cleanup split: if_splits)
next
  case Unmount
  with assms show ?thesis by (auto simp: step_def fresh_inv_cleanup split: if_splits)
next
  case (Tick d)
  with assms show ?thesis by (auto simp: step_def fresh_inv_fold_fire)
next
  case (Respond i out)
  show ?thesis
  proof (cases "find (\<lambda>r. request_id r = i) (inflight s)")
    case None
    with assms Respond show ?thesis by (simp add: step_def)
  next
    case (Some r)
    let ?s1 = "s\<lparr> inflight := filter (\<lambda>x. request_id x \<noteq> i) (inflight s) \<rparr>"
    from assms(1) have "fresh_inv ?s1" by (auto simp: fresh_inv_def)
    moreover from assms(2) Respond Some have "fetchAnalysis_resume r out ?s1 = Inr s'"
      by (simp add: step_def)
    ultimately show ?thesis by (rule fresh_inv_resume)
  qed
qed

lemma fresh_inv_run: "fresh_inv s \<Longrightarrow> run es s = Inr s' \<Longrightarrow> fresh_inv s'"
proof (induction es arbitrary: s)
  case Nil
  then show ?case by simp
next
  case (Cons e es)
  from step_total obtain s1 where s1: "step e s = Inr s1" by blast
  with Cons.prems have "run es s1 = Inr s'" by simp
  moreover from Cons.prems(1) s1 have "fresh_inv s1" by (rule fresh_inv_step)
  ultimately show ?case by (rule Cons.IH [rotated])
qed

lemma fresh_inv_mount: "fresh_inv (mount cid)"
  unfolding mount_def by (rule fresh_inv_effect) (simp add: fresh_inv_def)

text \<open>A navigation: what the step leaves.\<close>

lemma navigate_props:
  assumes inv: "reconciler_inv s" and fresh: "fresh_inv s"
    and go: "\<not> unmounted s" "cid' \<noteq> search_conversationId s"
  shows "\<exists>s'. step (Navigate cid') s = Inr s' \<and> timers s' = [] \<and> st_status s' = None \<and>
           st_error s' = None \<and> (\<forall>r \<in> set (inflight s). cancelled (request_owner r) s')"
proof -
  let ?s1 = "(cleanup s)\<lparr> search_conversationId := cid' \<rparr>"
  have step: "step (Navigate cid') s = Inr (effect ?s1)"
    using go by (simp add: step_def)
  have quiet: "timers ?s1 = []" "\<And>c. cancelled c ?s1"
    using cleanup_quiet [OF inv] by (simp_all add: cancelled_def)
  have "cancelled (request_owner r) (effect ?s1)" if "r \<in> set (inflight s)" for r
  proof -
    from fresh that have "closures s (request_owner r) \<noteq> None" by (simp add: fresh_inv_def)
    with fresh have "request_owner r < next_id s" by (simp add: fresh_inv_def)
    then have ne: "request_owner r \<noteq> next_id ?s1" by simp
    from quiet(2) [of "request_owner r"] ne show ?thesis
      by (simp add: effect_def cancelled_def Let_def fetchAnalysis_def split: option.splits)
  qed
  with step quiet(1) show ?thesis by simp
qed

lemma unmount_props:
  assumes "reconciler_inv s" "\<not> unmounted s"
  shows "\<exists>s'. step Unmount s = Inr s' \<and> timers s' = [] \<and> (\<forall>c. cancelled c s')"
  using cleanup_quiet [OF assms(1)] assms(2) by (simp add: step_def cancelled_def)


lemmas analysis_eval =
  step_def mount_def effect_def cleanup_def fire_def fetchAnalysis_def fetchAnalysis_resume_def
  fetchAnalysis_try_def fetchAnalysis_catch_def fetchAnalysis_finally_def schedule_retry_def
  set_timeout_var_def clearTimeout_def timeout_of_def cancelled_def normalizeResponse_def
  get_strict_def get_def coalesce_def try_catch_def RETRY_DELAY_def Let_def

lemmas render_eval =
  AnalysisContent_def score_def renderContent_def showLoader_def readyAnalysis_def
  no_conversation_def child_error_def

lemma get_string_truthy: "get p k = JStr x \<Longrightarrow> truthy p"
  by (cases p) (simp_all add: get_def)

lemma respond_live:
  assumes inv: "reconciler_inv s"
    and r: "find (\<lambda>r. request_id r = i) (inflight s) = Some r"
    and live: "\<not> cancelled (request_owner r) s"
    and t: "truthy payload"
  shows "\<exists>s2. step (Respond i (Resolved True (Some payload))) s =
             Inr (fetchAnalysis_finally (request_owner r) (withSpinner r)
                    (if get payload ''status'' = JStr ''pending''
                     then schedule_retry (request_owner r) s2 else s2)) \<and>
           timers s2 = [] \<and> current s2 = Some (request_owner r) \<and>
           \<not> cancelled (request_owner r) s2 \<and>
           (\<forall>c'. \<not> cancelled c' s2 \<longrightarrow> c' = request_owner r) \<and>
           next_id s2 = next_id s \<and> clock s2 = clock s \<and> issued s2 = issued s"
proof -
  let ?c = "request_owner r"
  let ?s0 = "s\<lparr> inflight := filter (\<lambda>x. request_id x \<noteq> i) (inflight s) \<rparr>"
  let ?s1 = "?s0\<lparr> st_status :=
                    Some \<lparr> conversationId = get payload ''conversation_id'',
                           status = get payload ''status'',
                           updatedAt = get payload ''updated_at'',
                           analysis = coalesce (get payload ''analysis'') JNull \<rparr>,
                  st_error := None \<rparr>"
  define s2 where "s2 = (case timeout_of ?c ?s1 of
               None \<Rightarrow> ?s1
             | Some t \<Rightarrow> set_timeout_var ?c None (clearTimeout t ?s1))"
  have inv1: "reconciler_inv ?s1" using inv by simp
  have live1: "\<not> cancelled ?c ?s1" using live by simp
  note c = clear_recorded [OF inv1 live1, folded s2_def]
  have live0: "\<not> cancelled ?c ?s0" using live by simp
  have "step (Respond i (Resolved True (Some payload))) s =
          Inr (fetchAnalysis_finally ?c (withSpinner r)
                 (if get payload ''status'' = JStr ''pending'' then schedule_retry ?c s2 else s2))"
    using r by (simp add: step_def resume_live [OF t live0] Let_def s2_def)
  moreover have "\<forall>c'. \<not> cancelled c' s2 \<longrightarrow> c' = ?c" using c(4) by blast
  moreover have "next_id s2 = next_id s" "clock s2 = clock s" "issued s2 = issued s"
    using c(5,6,11) by simp_all
  ultimately show ?thesis
    using c(1,2,3) by (intro exI [of _ s2] conjI)
qed

lemma respond_pending:
  assumes inv: "reconciler_inv s"
    and r: "find (\<lambda>r. request_id r = i) (inflight s) = Some r"
    and live: "\<not> cancelled (request_owner r) s"
    and pending: "get payload ''status'' = JStr ''pending''"
  shows "\<exists>s'. step (Respond i (Resolved True (Some payload))) s = Inr s' \<and>
           timers s' = [\<lparr> timer_id = next_id s, due = clock s + 5000,
                           timer_owner = request_owner r \<rparr>]"
proof -
  from pending have t: "truthy payload" by (rule get_string_truthy)
  from respond_live [OF inv r live t] obtain s2 where
    st: "step (Respond i (Resolved True (Some payload))) s =
           Inr (fetchAnalysis_finally (request_owner r) (withSpinner r)
                  (if get payload ''status'' = JStr ''pending''
                   then schedule_retry (request_owner r) s2 else s2))"
    and c: "timers s2 = []" "current s2 = Some (request_owner r)"
      "\<not> cancelled (request_owner r) s2" "\<forall>c'. \<not> cancelled c' s2 \<longrightarrow> c' = request_owner r"
    and e: "next_id s2 = next_id s" "clock s2 = clock s"
    by (elim exE conjE)
  have "timers (schedule_retry (request_owner r) s2) =
      [\<lparr> timer_id = next_id s2, due = clock s2 + RETRY_DELAY, timer_owner = request_owner r \<rparr>]"
    using c(1,2,3) c(4) [rule_format] by (rule schedule_retry_props(2))
  with st pending e show ?thesis
    by (simp add: fetchAnalysis_finally_def RETRY_DELAY_def)
qed

lemma respond_settled:
  assumes inv: "reconciler_inv s"
    and r: "find (\<lambda>r. request_id r = i) (inflight s) = Some r"
    and live: "\<not> cancelled (request_owner r) s"
    and t: "truthy payload" and settled: "get payload ''status'' \<noteq> JStr ''pending''"
  shows "\<exists>s'. step (Respond i (Resolved True (Some payload))) s = Inr s' \<and> timers s' = [] \<and>
           issued s' = issued s"
proof -
  from respond_live [OF inv r live t] obtain s2 where
    st: "step (Respond i (Resolved True (Some payload))) s =
           Inr (fetchAnalysis_finally (request_owner r) (withSpinner r)
                  (if get payload ''status'' = JStr ''pending''
                   then schedule_retry (request_owner r) s2 else s2))"
    and c: "timers s2 = []" "issued s2 = issued s"
    by (elim exE conjE)
  with settled show ?thesis by (simp add: fetchAnalysis_finally_def)
qed

lemma respond_failed:
  assumes r: "find (\<lambda>r. request_id r = i) (inflight s) = Some r"
    and live: "\<not> cancelled (request_owner r) s"
    and f: "failed out"
  shows "\<exists>s'. step (Respond i out) s = Inr s' \<and> st_error s' = Some (failure_message out) \<and>
           timers s' = timers s \<and> issued s' = issued s \<and> st_status s' = st_status s"
  using r live by (simp add: step_def resume_failed [OF f])

lemma respond_cancelled:
  assumes r: "find (\<lambda>r. request_id r = i) (inflight s) = Some r"
    and dead: "cancelled (request_owner r) s"
  shows "\<exists>s'. step (Respond i out) s = Inr s' \<and> st_status s' = st_status s \<and>
           st_error s' = st_error s \<and> st_isLoading s' = st_isLoading s \<and> timers s' = timers s \<and>
           issued s' = issued s"
proof (cases "failed out")
  case True
  with r dead show ?thesis by (simp add: step_def resume_failed)
next
  case False
  with not_failed obtain payload where "out = Resolved True (Some payload)" "truthy payload"
    by blast
  with r dead show ?thesis by (simp add: step_def resume_cancelled)
qed

lemma idle_step:
  assumes "timers s = []" "inflight s = []" "unattended e"
  shows "step e s = Inr (s\<lparr> clock := clock s + (case e of Tick d \<Rightarrow> d | _ \<Rightarrow> 0) \<rparr>)"
  using assms by (cases e) (simp_all add: step_def)

lemma idle_run:
  assumes "timers s = []" "inflight s = []" "list_all unattended es" "run es s = Inr s'"
  shows "\<exists>t. s' = s\<lparr> clock := t \<rparr>"
  using assms
proof (induction es arbitrary: s)
  case Nil
  then have "s' = s\<lparr> clock := clock s \<rparr>" by simp
  then show ?case by blast
next
  case (Cons e es)
  let ?s1 = "s\<lparr> clock := clock s + (case e of Tick d \<Rightarrow> d | _ \<Rightarrow> 0) \<rparr>"
  from Cons.prems have st: "step e s = Inr ?s1" by (simp add: idle_step)
  with Cons.prems have "run es ?s1 = Inr s'" by simp
  moreover have "timers ?s1 = []" "inflight ?s1 = []" using Cons.prems by simp_all
  moreover from Cons.prems have "list_all unattended es" by simp
  ultimately have "\<exists>t. s' = ?s1\<lparr> clock := t \<rparr>" by (intro Cons.IH)
  then show ?case by auto
qed

lemma readyAnalysis_clock [simp]: "readyAnalysis (s\<lparr> clock := t \<rparr>) = readyAnalysis s"
  by (simp add: readyAnalysis_def)

lemma score_clock [simp]: "score (s\<lparr> clock := t \<rparr>) = score s"
  by (simp add: score_def)

lemma renderContent_clock [simp]: "renderContent (s\<lparr> clock := t \<rparr>) = renderContent s"
  by (cases "st_status s") (simp_all add: renderContent_def showLoader_def split: option.split)

lemma AnalysisContent_clock [simp]: "AnalysisContent (s\<lparr> clock := t \<rparr>) = AnalysisContent s"
  by (simp add: AnalysisContent_def split: sum.split)


text \<open>
  C4. In every state a run of the page reaches, at most one retry timer is outstanding.
  And when a request of the closure that is in place ends with an OK response whose
  normalised status is \<^verbatim>\<open>pending\<close>, the timers after it are exactly one: the timer
  recorded before is gone, the new one is due 5000 ms later and belongs to that closure.
\<close>

theorem single_retry_timer:
  "run es (mount cid) = Inr s \<longrightarrow>
     length (timers s) \<le> 1 \<and>
     (find (\<lambda>r. request_id r = i) (inflight s) = Some r \<and> \<not> cancelled (request_owner r) s \<and>
      get payload ''status'' = JStr ''pending'' \<longrightarrow>
        (\<exists>s'. step (Respond i (Resolved True (Some payload))) s = Inr s' \<and>
              timers s' = [\<lparr> timer_id = next_id s, due = clock s + 5000,
                              timer_owner = request_owner r \<rparr>]))"
proof (intro impI conjI)
  assume "run es (mount cid) = Inr s"
  with mount_inv have inv: "reconciler_inv s" by (rule run_inv)
  then show "length (timers s) \<le> 1" by (rule inv_length)
  assume "find (\<lambda>r. request_id r = i) (inflight s) = Some r \<and> \<not> cancelled (request_owner r) s \<and>
      get payload ''status'' = JStr ''pending''"
  then show "\<exists>s'. step (Respond i (Resolved True (Some payload))) s = Inr s' \<and>
              timers s' = [\<lparr> timer_id = next_id s, due = clock s + 5000,
                              timer_owner = request_owner r \<rparr>]"
    using respond_pending [OF inv] by blast
qed

theorem single_retry_timer_witness:
  "\<exists>s. run [Respond 2 (Resolved True (Some analysis_pending)), Tick 5000] (mount (Some ''c1'')) = Inr s \<and>
       length (timers s) \<le> 1 \<and>
       (\<exists>s'. step (Respond 4 (Resolved True (Some analysis_pending))) s = Inr s' \<and>
             timers s' = [\<lparr> timer_id = 5, due = 10000, timer_owner = 1 \<rparr>])"
proof -
  from run_total obtain s where
    s: "run [Respond 2 (Resolved True (Some analysis_pending)), Tick 5000] (mount (Some ''c1'')) = Inr s"
    by blast
  let ?r = "\<lparr> request_id = 4, request_owner = 1, withSpinner = False,
              url = ''/api/interview-analysis/c1'', issued_at = 5000 \<rparr>"
  from s have facts: "find (\<lambda>r. request_id r = 4) (inflight s) = Some ?r"
      "\<not> cancelled (request_owner ?r) s" "next_id s = 5" "clock s = 5000"
    by (auto simp: analysis_eval analysis_pending_def)
  have pending: "get analysis_pending ''status'' = JStr ''pending''"
    by (simp add: analysis_pending_def get_def)
  from single_retry_timer [where payload = analysis_pending, THEN mp, OF s]
  have "length (timers s) \<le> 1"
    and "find (\<lambda>r. request_id r = 4) (inflight s) = Some ?r \<and> \<not> cancelled (request_owner ?r) s \<and>
      get analysis_pending ''status'' = JStr ''pending'' \<longrightarrow>
        (\<exists>s'. step (Respond 4 (Resolved True (Some analysis_pending))) s = Inr s' \<and>
              timers s' = [\<lparr> timer_id = next_id s, due = clock s + 5000,
                              timer_owner = request_owner ?r \<rparr>])"
    by blast+
  with facts pending s show ?thesis by auto
qed


lemma navigate_issues:
  assumes "\<not> unmounted s" "cid' \<noteq> search_conversationId s"
  shows "\<exists>s'. step (Navigate cid') s = Inr s' \<and>
           issued s' = issued s @
             (case cid' of
                None \<Rightarrow> []
              | Some c \<Rightarrow>
                  if c = [] then []
                  else [\<lparr> request_id = Suc (next_id s), request_owner = next_id s,
                          withSpinner = True, url = ''/api/interview-analysis/'' @ c,
                          issued_at = clock s \<rparr>])"
  using assms
  by (simp add: step_def effect_def fetchAnalysis_def Let_def split: option.splits)

text \<open>
  C10. From every state a run of the page reaches: a change of the conversation id leaves
  no timer outstanding, status and error are \<^verbatim>\<open>null\<close>, every request that was in flight
  belongs to a cancelled closure, and the only request that left is the first one for the
  new conversation id (none when the new id is missing or empty); an unmount leaves no
  timer outstanding and every closure cancelled; and the end of a request of a cancelled
  closure, whatever its outcome, changes neither status, error, the loading flag, nor the
  timers, and sends nothing.
\<close>

theorem navigation_cancels_and_resets:
  "run es (mount cid) = Inr s \<longrightarrow>
     (\<not> unmounted s \<and> cid' \<noteq> search_conversationId s \<longrightarrow>
        (\<exists>s'. step (Navigate cid') s = Inr s' \<and> timers s' = [] \<and> st_status s' = None \<and>
              st_error s' = None \<and>
              (\<forall>r \<in> set (inflight s). cancelled (request_owner r) s') \<and>
              issued s' = issued s @
                (case cid' of
                   None \<Rightarrow> []
                 | Some c \<Rightarrow>
                     if c = [] then []
                     else [\<lparr> request_id = Suc (next_id s), request_owner = next_id s,
                             withSpinner = True, url = ''/api/interview-analysis/'' @ c,
                             issued_at = clock s \<rparr>]))) \<and>
     (\<not> unmounted s \<longrightarrow>
        (\<exists>s'. step Unmount s = Inr s' \<and> timers s' = [] \<and> (\<forall>c. cancelled c s'))) \<and>
     (find (\<lambda>r. request_id r = i) (inflight s) = Some r \<and> cancelled (request_owner r) s \<longrightarrow>
        (\<exists>s'. step (Respond i out) s = Inr s' \<and> st_status s' = st_status s \<and>
              st_error s' = st_error s \<and> st_isLoading s' = st_isLoading s \<and>
              timers s' = timers s \<and> issued s' = issued s))"
proof (intro impI conjI)
  assume reach: "run es (mount cid) = Inr s"
  from mount_inv reach have inv: "reconciler_inv s" by (rule run_inv)
  from fresh_inv_mount reach have fresh: "fresh_inv s" by (rule fresh_inv_run)
  {
    assume go: "\<not> unmounted s \<and> cid' \<noteq> search_conversationId s"
    then have a: "\<not> unmounted s" and b: "cid' \<noteq> search_conversationId s" by simp_all
    from navigate_props [OF inv fresh a b] navigate_issues [OF a b]
    show "\<exists>s'. step (Navigate cid') s = Inr s' \<and> timers s' = [] \<and> st_status s' = None \<and>
              st_error s' = None \<and>
              (\<forall>r \<in> set (inflight s). cancelled (request_owner r) s') \<and>
              issued s' = issued s @
                (case cid' of
                   None \<Rightarrow> []
                 | Some c \<Rightarrow>
                     if c = [] then []
                     else [\<lparr> request_id = Suc (next_id s), request_owner = next_id s,
                             withSpinner = True, url = ''/api/interview-analysis/'' @ c,
                             issued_at = clock s \<rparr>])"
      by auto
  }
  {
    assume "\<not> unmounted s"
    with inv show "\<exists>s'. step Unmount s = Inr s' \<and> timers s' = [] \<and> (\<forall>c. cancelled c s')"
      by (rule unmount_props)
  }
  {
    assume "find (\<lambda>r. request_id r = i) (inflight s) = Some r \<and> cancelled (request_owner r) s"
    then show "\<exists>s'. step (Respond i out) s = Inr s' \<and> st_status s' = st_status s \<and>
              st_error s' = st_error s \<and> st_isLoading s' = st_isLoading s \<and>
              timers s' = timers s \<and> issued s' = issued s"
      using respond_cancelled by blast
  }
qed

theorem navigation_cancels_and_resets_witness:
  "(\<exists>s. run [Respond 2 (Resolved True (Some analysis_pending))] (mount (Some ''c1'')) = Inr s \<and>
        timers s = [\<lparr> timer_id = 3, due = 5000, timer_owner = 1 \<rparr>] \<and>
        (\<exists>s'. step (Navigate (Some ''c2'')) s = Inr s' \<and> timers s' = [] \<and>
              st_status s' = None \<and> st_error s' = None \<and>
              issued s' = issued s @
                [\<lparr> request_id = 5, request_owner = 4, withSpinner = True,
                    url = ''/api/interview-analysis/c2'', issued_at = 0 \<rparr>]) \<and>
        (\<exists>s'. step Unmount s = Inr s' \<and> timers s' = [])) \<and>
   (\<exists>s. run [Navigate (Some ''c2'')] (mount (Some ''c1'')) = Inr s \<and>
        (\<exists>s'. step (Respond 2 (Resolved True (Some analysis_ready))) s = Inr s' \<and>
              st_status s' = None \<and> st_error s' = None \<and> st_isLoading s' = True \<and>
              timers s' = []))"
proof -
  from run_total obtain s where
    s: "run [Respond 2 (Resolved True (Some analysis_pending))] (mount (Some ''c1'')) = Inr s"
    by blast
  from s have facts: "\<not> unmounted s" "Some ''c2'' \<noteq> search_conversationId s"
      "timers s = [\<lparr> timer_id = 3, due = 5000, timer_owner = 1 \<rparr>]" "next_id s = 4" "clock s = 0"
    by (auto simp: analysis_eval analysis_pending_def)
  note t = navigation_cancels_and_resets [where cid' = "Some ''c2''", THEN mp, OF s]
  from t [THEN conjunct1, THEN mp, OF conjI [OF facts(1,2)]] facts(4,5)
  have a: "\<exists>s'. step (Navigate (Some ''c2'')) s = Inr s' \<and> timers s' = [] \<and>
              st_status s' = None \<and> st_error s' = None \<and>
              issued s' = issued s @
                [\<lparr> request_id = 5, request_owner = 4, withSpinner = True,
                    url = ''/api/interview-analysis/c2'', issued_at = 0 \<rparr>]"
    by auto
  from t [THEN conjunct2, THEN conjunct1, THEN mp, OF facts(1)]
  have b: "\<exists>s'. step Unmount s = Inr s' \<and> timers s' = []" by auto
  from run_total obtain u where
    u: "run [Navigate (Some ''c2'')] (mount (Some ''c1'')) = Inr u"
    by blast
  let ?r = "\<lparr> request_id = 2, request_owner = 1, withSpinner = True,
              url = ''/api/interview-analysis/c1'', issued_at = 0 \<rparr>"
  from u have ufacts: "find (\<lambda>r. request_id r = 2) (inflight u) = Some ?r"
      "cancelled (request_owner ?r) u" "st_status u = None" "st_error u = None"
      "st_isLoading u = True" "timers u = []"
    by (auto simp: analysis_eval)
  from navigation_cancels_and_resets
         [where i = 2 and out = "Resolved True (Some analysis_ready)",
          THEN mp, OF u, THEN conjunct2, THEN conjunct2, THEN mp, OF conjI [OF ufacts(1,2)]]
       ufacts(3-6)
  have c: "\<exists>s'. step (Respond 2 (Resolved True (Some analysis_ready))) u = Inr s' \<and>
              st_status s' = None \<and> st_error s' = None \<and> st_isLoading s' = True \<and>
              timers s' = []"
    by auto
  from s facts(3) a b u c show ?thesis by blast
qed

section \<open>The analysis page served from a sequence of answers\<close>

lemma first_error_None: "first_error cs = None \<longleftrightarrow> (\<forall>c \<in> set cs. c = None)"
  by (induction cs rule: first_error.induct) auto

lemma is_string_props:
  assumes "is_string v"
  shows "react_child v" "convertible v" "\<not> nullish v" "child_error v = None"
  using assms by (cases v; simp add: is_string_def child_error_def)+

lemma is_string_get:
  assumes "is_string (get v k)"
  shows "get_strict v k = Inr (get v k)" "read_error v k = None" "\<not> nullish v" "truthy v"
  using assms by (cases v; simp add: is_string_def get_def get_strict_def read_error_def)+

lemma read_error_object: "is_string (get v k) \<Longrightarrow> read_error v k' = None"
  by (cases v) (simp_all add: is_string_def get_def get_strict_def read_error_def)

lemma string_array_errors:
  "is_array_of is_string v \<Longrightarrow> map_errors name (\<lambda>item idx. []) (coalesce v (JArr [])) = []"
  by (cases v) (simp_all add: is_array_of_def map_errors_def coalesce_def length_truthy_def)

lemma string_array_children:
  "is_array_of is_string v \<Longrightarrow>
   \<forall>c \<in> set (map_children (\<lambda>item. item) (coalesce v (JArr []))). child_error c = None"
  by (cases v)
     (auto simp: is_array_of_def map_children_def coalesce_def length_truthy_def list_all_iff
        is_string_props)

lemma keyEvent_errors_typed: "is_KeyEvent e \<Longrightarrow> set (keyEvent_errors e i) \<subseteq> {None}"
  by (auto simp: is_KeyEvent_def keyEvent_errors_def optional_def is_string_get coalesce_def
      is_string_props read_error_object)

lemma keyEvents_errors:
  assumes "is_array_of is_KeyEvent v"
  shows "\<forall>c \<in> set (map_errors name keyEvent_errors (coalesce v (JArr []))). c = None"
proof (cases v)
  case (JArr xs)
  with assms have all: "\<forall>x \<in> set xs. is_KeyEvent x" by (simp add: is_array_of_def list_all_iff)
  have "\<forall>(x, i) \<in> set (zip xs [0..<length xs]). set (keyEvent_errors x i) \<subseteq> {None}"
    using all keyEvent_errors_typed by (auto dest: set_zip_leftD)
  then show ?thesis using JArr
    by (auto simp: map_errors_def coalesce_def length_truthy_def)
qed (use assms in \<open>simp_all add: is_array_of_def\<close>)

lemma keyEvents_children:
  assumes "is_array_of is_KeyEvent v"
  shows "\<forall>c \<in> set (map_children (\<lambda>ev. get ev ''message'') (coalesce v (JArr []))).
           child_error c = None"
  using assms
  by (cases v)
     (auto simp: is_array_of_def map_children_def coalesce_def length_truthy_def list_all_iff
        is_KeyEvent_def is_string_props)

lemma summary_child:
  "optional is_EngagementSummary v \<Longrightarrow> truthy (get v ''summary'') \<Longrightarrow>
   child_error (get v ''summary'') = None"
  by (auto simp: optional_def is_EngagementSummary_def get_def is_string_props)

lemma typed_report:
  assumes "is_Analysis a"
  shows "first_error (report_errors a) = None"
  unfolding first_error_None report_errors_def report_children_def
  using assms
  by (auto simp: is_Analysis_def is_CoachingFeedback_def is_string_get is_string_props
      string_array_errors dest: string_array_children [rule_format]
      keyEvents_children [rule_format] keyEvents_errors [rule_format] summary_child)

lemma confidenceScore_string: "is_string v \<Longrightarrow> \<exists>n. confidenceScore v = Inr n"
  by (cases v) (simp_all add: is_string_def confidenceScore_def)

lemma typed_truthy: "is_Analysis a \<Longrightarrow> truthy a"
  by (cases a) (simp_all add: is_Analysis_def is_string_def get_def)

lemmas stage_eval =
  step_def mount_def effect_def fire_def fetchAnalysis_def fetchAnalysis_resume_def
  fetchAnalysis_try_def fetchAnalysis_catch_def fetchAnalysis_finally_def schedule_retry_def
  set_timeout_var_def clearTimeout_def timeout_of_def cancelled_def try_catch_def
  RETRY_DELAY_def Let_def normalizeResponse_truthy coalesce_def request_no_def
  normalized_def serve_def

lemma stage_mount: "cid \<noteq> [] \<Longrightarrow> mount (Some cid) = stage 0 cid ps d1 d2 0"
  by (simp add: stage_def stage_eval)

lemma stage_wait:
  assumes "n = 0 \<or> n = 2 \<or> n = 4 \<or> n = 5"
  shows "serve ps (Wait d) (stage n cid ps d1 d2 t) = Inr (stage n cid ps d1 d2 (t + d))"
  using assms by (elim disjE) (simp_all add: stage_def stage_eval)

lemma stage_wait_1:
  "serve ps (Wait d) (stage 1 cid ps d1 d2 t) =
     Inr (if d1 \<le> t + d then stage 2 cid ps d1 d2 (t + d) else stage 1 cid ps d1 d2 (t + d))"
  by (simp add: stage_def stage_eval)

lemma stage_wait_3:
  "serve ps (Wait d) (stage 3 cid ps d1 d2 t) =
     Inr (if d2 \<le> t + d then stage 4 cid ps d1 d2 (t + d) else stage 3 cid ps d1 d2 (t + d))"
  by (simp add: stage_def stage_eval)

lemma stage_deliver_0:
  assumes "get p1 ''status'' = JStr ''pending''"
  shows "serve [p1, p2, p3] (Deliver k) (stage 0 cid [p1, p2, p3] d1 d2 t) =
     Inr (if k = 0 then stage 1 cid [p1, p2, p3] (t + 5000) d2 t
          else stage 0 cid [p1, p2, p3] d1 d2 t)"
  using assms get_string_truthy [OF assms]
  by (cases k) (simp_all add: stage_def stage_eval)

lemma stage_deliver_2:
  assumes "get p2 ''status'' = JStr ''pending''"
  shows "serve [p1, p2, p3] (Deliver k) (stage 2 cid [p1, p2, p3] d1 d2 t) =
     Inr (if k = 1 then stage 3 cid [p1, p2, p3] d1 (t + 5000) t
          else stage 2 cid [p1, p2, p3] d1 d2 t)"
  using assms get_string_truthy [OF assms]
  by (cases k; cases "k - 1") (simp_all add: stage_def stage_eval)

lemma stage_deliver_4:
  assumes "get p3 ''status'' = JStr ''ready''"
  shows "serve [p1, p2, p3] (Deliver k) (stage 4 cid [p1, p2, p3] d1 d2 t) =
     Inr (if k = 2 then stage 5 cid [p1, p2, p3] d1 d2 t
          else stage 4 cid [p1, p2, p3] d1 d2 t)"
  using assms get_string_truthy [OF assms]
  by (cases k; cases "k - 1"; cases "k - 2") (simp_all add: stage_def stage_eval)

lemma stage_deliver_idle:
  assumes "n = 1 \<or> n = 3 \<or> n = 5"
  shows "serve [p1, p2, p3] (Deliver k) (stage n cid [p1, p2, p3] d1 d2 t) =
     Inr (stage n cid [p1, p2, p3] d1 d2 t)"
  using assms by (elim disjE) (simp_all add: stage_def stage_eval)

lemma typed_payload:
  assumes "is_BackendAnalysisResponse p"
  shows "is_string (get p ''conversation_id'')" "is_string (get p ''updated_at'')"
    "get p ''analysis'' \<noteq> JNull \<Longrightarrow> is_Analysis (get p ''analysis'')"
  using assms by (auto simp: is_BackendAnalysisResponse_def)

lemma not_ready_render:
  assumes "cid \<noteq> []" "is_BackendAnalysisResponse p" "get p ''status'' = JStr ''pending''"
    and "search_conversationId s = Some cid" "st_error s = None"
    and "st_status s = Some (normalized p)"
  shows "AnalysisContent s = Inr (PendingCard (get p ''conversation_id'') (get p ''updated_at''))"
  using assms typed_payload(1,2) [OF assms(2)]
  by (simp add: AnalysisContent_def score_def readyAnalysis_def renderContent_def
      no_conversation_def showLoader_def normalized_def is_string_props)

lemma ready_render:
  assumes "cid \<noteq> []" "is_Analysis (get p ''analysis'')" "get p ''status'' = JStr ''ready''"
    and "search_conversationId s = Some cid" "st_error s = None"
    and "st_status s = Some (normalized p)"
  shows "AnalysisContent s = Inr (ReportCard (get p ''analysis''))"
proof -
  let ?a = "get p ''analysis''"
  from assms(2) have t: "truthy ?a" by (rule typed_truthy)
  then have n: "\<not> nullish ?a" by (cases ?a) simp_all
  have ra: "readyAnalysis s = ?a" using assms n
    by (simp add: readyAnalysis_def normalized_def coalesce_def)
  from assms(2) have c: "is_string (get (get ?a ''case_summary'') ''user_confidence'')"
    by (simp add: is_Analysis_def)
  from confidenceScore_string [OF c] obtain k where
    "confidenceScore (get (get ?a ''case_summary'') ''user_confidence'') = Inr k" ..
  then have sc: "score s = Inr k" using ra t by (simp add: score_def is_string_get [OF c])
  show ?thesis using assms ra t typed_report [OF assms(2)] sc
    by (simp add: AnalysisContent_def renderContent_def no_conversation_def showLoader_def
        normalized_def)
qed

lemma stage_render:
  assumes "cid \<noteq> []"
    and "is_BackendAnalysisResponse p1" "is_BackendAnalysisResponse p2"
      "is_BackendAnalysisResponse p3"
    and "get p1 ''status'' = JStr ''pending''" "get p2 ''status'' = JStr ''pending''"
      "get p3 ''status'' = JStr ''ready''" "get p3 ''analysis'' \<noteq> JNull"
    and "n \<le> 5"
  shows "AnalysisContent (stage n cid [p1, p2, p3] d1 d2 t) = Inr (stage_view n [p1, p2, p3])"
proof -
  from \<open>n \<le> 5\<close> consider "n = 0" | "n = 1 \<or> n = 2" | "n = 3 \<or> n = 4" | "n = 5" by arith
  then show ?thesis
  proof cases
    case 1
    then show ?thesis using assms(1)
      by (simp add: stage_def stage_view_def AnalysisContent_def score_def readyAnalysis_def
          renderContent_def no_conversation_def showLoader_def)
  next
    case 2
    have "AnalysisContent (stage n cid [p1, p2, p3] d1 d2 t) =
        Inr (PendingCard (get p1 ''conversation_id'') (get p1 ''updated_at''))"
      using 2 by (intro not_ready_render [OF assms(1,2,5)]) (auto simp: stage_def)
    then show ?thesis using 2 by (auto simp: stage_view_def)
  next
    case 3
    have "AnalysisContent (stage n cid [p1, p2, p3] d1 d2 t) =
        Inr (PendingCard (get p2 ''conversation_id'') (get p2 ''updated_at''))"
      using 3 by (intro not_ready_render [OF assms(1,3,6)]) (auto simp: stage_def)
    then show ?thesis using 3 by (auto simp: stage_view_def)
  next
    case 4
    have "AnalysisContent (stage n cid [p1, p2, p3] d1 d2 t) =
        Inr (ReportCard (get p3 ''analysis''))"
      using 4 by (intro ready_render [OF assms(1) typed_payload(3) [OF assms(4,8)] assms(7)])
        (auto simp: stage_def)
    then show ?thesis using 4 by (simp add: stage_view_def)
  qed
qed

lemma stage_step:
  assumes "get p1 ''status'' = JStr ''pending''" "get p2 ''status'' = JStr ''pending''"
      "get p3 ''status'' = JStr ''ready''"
    and "n \<le> 5"
  shows "\<exists>n' d1' d2' t'.
           serve [p1, p2, p3] w (stage n cid [p1, p2, p3] d1 d2 t) =
             Inr (stage n' cid [p1, p2, p3] d1' d2' t') \<and>
           (n' = n \<or> n' = Suc n) \<and> n' \<le> 5"
proof -
  from \<open>n \<le> 5\<close> consider "n = 0" | "n = 1" | "n = 2" | "n = 3" | "n = 4" | "n = 5" by arith
  then show ?thesis
  proof cases
    case 1
    show ?thesis
    proof (cases w)
      case (Wait d) with 1 show ?thesis using stage_wait [of 0] by fastforce
    next
      case (Deliver k) with 1 show ?thesis
        using stage_deliver_0 [OF assms(1), of p2 p3 k cid d1 d2 t] by (cases "k = 0") fastforce+
    qed
  next
    case 2
    show ?thesis
    proof (cases w)
      case (Wait d) with 2 show ?thesis
        using stage_wait_1 [of "[p1, p2, p3]" d cid d1 d2 t] by (cases "d1 \<le> t + d") fastforce+
    next
      case (Deliver k) with 2 show ?thesis
        using stage_deliver_idle [of 1 p1 p2 p3 k cid d1 d2 t] by fastforce
    qed
  next
    case 3
    show ?thesis
    proof (cases w)
      case (Wait d) with 3 show ?thesis using stage_wait [of 2] by fastforce
    next
      case (Deliver k) with 3 show ?thesis
        using stage_deliver_2 [OF assms(2), of p1 p3 k cid d1 d2 t] by (cases "k = 1") fastforce+
    qed
  next
    case 4
    show ?thesis
    proof (cases w)
      case (Wait d) with 4 show ?thesis
        using stage_wait_3 [of "[p1, p2, p3]" d cid d1 d2 t] by (cases "d2 \<le> t + d") fastforce+
    next
      case (Deliver k) with 4 show ?thesis
        using stage_deliver_idle [of 3 p1 p2 p3 k cid d1 d2 t] by fastforce
    qed
  next
    case 5
    show ?thesis
    proof (cases w)
      case (Wait d) with 5 show ?thesis using stage_wait [of 4] by fastforce
    next
      case (Deliver k) with 5 show ?thesis
        using stage_deliver_4 [OF assms(3), of p1 p2 k cid d1 d2 t] by (cases "k = 2") fastforce+
    qed
  next
    case 6
    show ?thesis
    proof (cases w)
      case (Wait d) with 6 show ?thesis using stage_wait [of 5] by fastforce
    next
      case (Deliver k) with 6 show ?thesis
        using stage_deliver_idle [of 5 p1 p2 p3 k cid d1 d2 t] by fastforce
    qed
  qed
qed

lemma remdups_adj_Cons_cong:
  "remdups_adj xs = remdups_adj ys \<Longrightarrow> remdups_adj (x # xs) = remdups_adj (x # ys)"
  by (simp add: remdups_adj_Cons)

lemma stage_trace:
  assumes "cid \<noteq> []"
    and "is_BackendAnalysisResponse p1" "is_BackendAnalysisResponse p2"
      "is_BackendAnalysisResponse p3"
    and "get p1 ''status'' = JStr ''pending''" "get p2 ''status'' = JStr ''pending''"
      "get p3 ''status'' = JStr ''ready''" "get p3 ''analysis'' \<noteq> JNull"
    and "n \<le> 5"
  shows "\<exists>n' d1' d2' t'. n \<le> n' \<and> n' \<le> 5 \<and>
           serve_run [p1, p2, p3] ws (stage n cid [p1, p2, p3] d1 d2 t) =
             Inr (stage n' cid [p1, p2, p3] d1' d2' t') \<and>
           remdups_adj (map surfaced (serve_trace [p1, p2, p3] ws
                                        (stage n cid [p1, p2, p3] d1 d2 t))) =
             remdups_adj (map (\<lambda>k. surfaced (Inr (stage_view k [p1, p2, p3]))) [n..<Suc n'])"
  using \<open>n \<le> 5\<close>
proof (induction ws arbitrary: n d1 d2 t)
  case Nil
  have "AnalysisContent (stage n cid [p1, p2, p3] d1 d2 t) = Inr (stage_view n [p1, p2, p3])"
    using assms(1-8) Nil by (rule stage_render)
  then show ?case using Nil by (intro exI [of _ n] exI [of _ d1] exI [of _ d2] exI [of _ t]) simp
next
  case (Cons w ws)
  let ?ps = "[p1, p2, p3]"
  let ?f = "\<lambda>k. surfaced (Inr (stage_view k ?ps))"
  from stage_step [OF assms(5-7) Cons.prems, of w cid d1 d2 t] obtain n1 e1 e2 u where
    st: "serve ?ps w (stage n cid ?ps d1 d2 t) = Inr (stage n1 cid ?ps e1 e2 u)"
    and n1: "n1 = n \<or> n1 = Suc n" "n1 \<le> 5"
    by blast
  from Cons.IH [OF n1(2), of e1 e2 u] obtain n' d1' d2' t' where
    n': "n1 \<le> n'" "n' \<le> 5"
    and run: "serve_run ?ps ws (stage n1 cid ?ps e1 e2 u) = Inr (stage n' cid ?ps d1' d2' t')"
    and tr: "remdups_adj (map surfaced (serve_trace ?ps ws (stage n1 cid ?ps e1 e2 u))) =
             remdups_adj (map ?f [n1..<Suc n'])"
    by blast
  have r: "AnalysisContent (stage n cid ?ps d1 d2 t) = Inr (stage_view n ?ps)"
    using assms(1-8) Cons.prems by (rule stage_render)
  have "remdups_adj (map surfaced (serve_trace ?ps (w # ws) (stage n cid ?ps d1 d2 t))) =
        remdups_adj (?f n # map surfaced (serve_trace ?ps ws (stage n1 cid ?ps e1 e2 u)))"
    using st r by simp
  also have "\<dots> = remdups_adj (?f n # map ?f [n1..<Suc n'])"
    using tr by (rule remdups_adj_Cons_cong)
  also have "\<dots> = remdups_adj (map ?f [n..<Suc n'])"
  proof -
    from n1(1) show ?thesis
    proof
      assume "n1 = n"
      with n' have "[n1..<Suc n'] = n # [Suc n..<Suc n']" by (simp add: upt_conv_Cons)
      then show ?thesis using \<open>n1 = n\<close> by simp
    next
      assume "n1 = Suc n"
      with n' have "[n..<Suc n'] = n # [n1..<Suc n']" by (simp add: upt_conv_Cons)
      then show ?thesis by simp
    qed
  qed
  finally have t: "remdups_adj (map surfaced (serve_trace ?ps (w # ws) (stage n cid ?ps d1 d2 t))) =
        remdups_adj (map ?f [n..<Suc n'])" .
  have "n \<le> n'" using n1 n' by auto
  moreover have "serve_run ?ps (w # ws) (stage n cid ?ps d1 d2 t) =
      Inr (stage n' cid ?ps d1' d2' t')"
    using st run by simp
  ultimately show ?case using n'(2) t by blast
qed

lemma stage_surfaces:
  assumes "n' \<le> 5"
  shows "remdups_adj (map (\<lambda>k. surfaced (Inr (stage_view k ps))) [0..<Suc n']) =
           (if n' = 0 then [Loading] else if n' \<le> 4 then [Loading, Pending]
            else [Loading, Pending, Ready])"
proof -
  from assms consider "n' = 0" | "n' = 1" | "n' = 2" | "n' = 3" | "n' = 4" | "n' = 5" by arith
  then show ?thesis
    by cases (simp_all add: stage_view_def upt_rec)
qed

lemma fixtures_typed:
  "is_BackendAnalysisResponse analysis_pending"
  "is_BackendAnalysisResponse analysis_pending_later"
  "is_BackendAnalysisResponse analysis_ready"
  "get analysis_pending ''status'' = JStr ''pending''"
  "get analysis_pending_later ''status'' = JStr ''pending''"
  "get analysis_ready ''status'' = JStr ''ready''"
  "get analysis_ready ''analysis'' \<noteq> JNull"
  by (simp_all add: is_BackendAnalysisResponse_def is_Analysis_def is_CoachingFeedback_def
      is_KeyEvent_def is_EngagementSummary_def is_array_of_def is_string_def optional_def
      analysis_pending_def analysis_pending_later_def analysis_ready_def report_c1_def get_def)

text \<open>
  C9. The page is opened for a conversation id and left alone by the consumer (its
  render before the effect has run shows nothing); the
  backend answers its first request with a pending payload, its second with a pending
  payload and its third with a ready payload that has an analysis, all three of the
  declared type \<^verbatim>\<open>BackendAnalysisResponse\<close>. When each answer arrives and a retry of at
  least 5000 ms lies between them, the renders are, in this order: the loader, the
  pending card (filled from the first answer, then from the second), the report. For
  every schedule, whenever time passes and whenever the answers arrive (early, late,
  twice, or not at all): no exception escapes and no render raises, at most three
  requests leave the page, and the render states that the page surfaces, one after the
  other, are loading, then pending, then ready, each once and up to the point the
  schedule gets to; so the page never goes back to pending after the report. Once the
  report is shown, no timer is outstanding and no request is in flight, and whatever
  time passes and whatever answer arrives, the page keeps showing the report and sends
  nothing. In general, an OK answer whose status is not \<^verbatim>\<open>pending\<close>, to a request of the
  closure in place, leaves no timer and sends nothing.
\<close>

theorem pending_pending_ready:
  assumes "cid \<noteq> []"
    and "is_BackendAnalysisResponse p1" "is_BackendAnalysisResponse p2"
      "is_BackendAnalysisResponse p3"
    and "get p1 ''status'' = JStr ''pending''" "get p2 ''status'' = JStr ''pending''"
      "get p3 ''status'' = JStr ''ready''" "get p3 ''analysis'' \<noteq> JNull"
  shows
    "(5000 \<le> a \<and> 5000 \<le> b \<longrightarrow>
        serve_trace [p1, p2, p3] [Deliver 0, Wait a, Deliver 1, Wait b, Deliver 2]
          (mount (Some cid)) =
          [Inr LoaderCard,
           Inr (PendingCard (get p1 ''conversation_id'') (get p1 ''updated_at'')),
           Inr (PendingCard (get p1 ''conversation_id'') (get p1 ''updated_at'')),
           Inr (PendingCard (get p2 ''conversation_id'') (get p2 ''updated_at'')),
           Inr (PendingCard (get p2 ''conversation_id'') (get p2 ''updated_at'')),
           Inr (ReportCard (get p3 ''analysis''))]) \<and>
     (\<exists>s. serve_run [p1, p2, p3] ws (mount (Some cid)) = Inr s \<and>
          length (issued s) \<le> 3 \<and>
          remdups_adj (map surfaced (serve_trace [p1, p2, p3] ws (mount (Some cid)))) \<in>
            {[Loading], [Loading, Pending], [Loading, Pending, Ready]} \<and>
          (surfaced (AnalysisContent s) = Ready \<longrightarrow>
             remdups_adj (map surfaced (serve_trace [p1, p2, p3] ws (mount (Some cid)))) =
               [Loading, Pending, Ready] \<and>
             AnalysisContent s = Inr (ReportCard (get p3 ''analysis'')) \<and>
             timers s = [] \<and> inflight s = [] \<and> length (issued s) = 3 \<and>
             (\<forall>es s'. list_all unattended es \<and> run es s = Inr s' \<longrightarrow>
                AnalysisContent s' = Inr (ReportCard (get p3 ''analysis'')) \<and>
                issued s' = issued s \<and> timers s' = []))) \<and>
     (run es0 (mount cid0) = Inr s0 \<and> find (\<lambda>r. request_id r = i) (inflight s0) = Some r \<and>
      \<not> cancelled (request_owner r) s0 \<and> truthy payload \<and>
      get payload ''status'' \<noteq> JStr ''pending'' \<longrightarrow>
        (\<exists>s'. step (Respond i (Resolved True (Some payload))) s0 = Inr s' \<and> timers s' = [] \<and>
              issued s' = issued s0)) \<and>
     first_render (Some cid) = Inr Blank"
proof -
  let ?ps = "[p1, p2, p3]"
  note render = stage_render [OF assms]
  have first: "5000 \<le> a \<and> 5000 \<le> b \<longrightarrow>
        serve_trace ?ps [Deliver 0, Wait a, Deliver 1, Wait b, Deliver 2] (mount (Some cid)) =
          [Inr LoaderCard,
           Inr (PendingCard (get p1 ''conversation_id'') (get p1 ''updated_at'')),
           Inr (PendingCard (get p1 ''conversation_id'') (get p1 ''updated_at'')),
           Inr (PendingCard (get p2 ''conversation_id'') (get p2 ''updated_at'')),
           Inr (PendingCard (get p2 ''conversation_id'') (get p2 ''updated_at'')),
           Inr (ReportCard (get p3 ''analysis''))]"
    using assms(5-7)
    by (simp add: stage_mount [OF assms(1), of ?ps 0 0] stage_deliver_0
        stage_wait_1 [unfolded One_nat_def] stage_deliver_2 stage_wait_3 stage_deliver_4
        render [unfolded One_nat_def] render stage_view_def)
  have second: "\<exists>s. serve_run ?ps ws (mount (Some cid)) = Inr s \<and>
          length (issued s) \<le> 3 \<and>
          remdups_adj (map surfaced (serve_trace ?ps ws (mount (Some cid)))) \<in>
            {[Loading], [Loading, Pending], [Loading, Pending, Ready]} \<and>
          (surfaced (AnalysisContent s) = Ready \<longrightarrow>
             remdups_adj (map surfaced (serve_trace ?ps ws (mount (Some cid)))) =
               [Loading, Pending, Ready] \<and>
             AnalysisContent s = Inr (ReportCard (get p3 ''analysis'')) \<and>
             timers s = [] \<and> inflight s = [] \<and> length (issued s) = 3 \<and>
             (\<forall>es s'. list_all unattended es \<and> run es s = Inr s' \<longrightarrow>
                AnalysisContent s' = Inr (ReportCard (get p3 ''analysis'')) \<and>
                issued s' = issued s \<and> timers s' = []))"
  proof -
    have "(0::nat) \<le> 5" by simp
    from stage_trace [OF assms this, of ws 0 0 0] obtain n' d1' d2' t' where
      n': "n' \<le> 5"
      and run: "serve_run ?ps ws (stage 0 cid ?ps 0 0 0) = Inr (stage n' cid ?ps d1' d2' t')"
      and tr: "remdups_adj (map surfaced (serve_trace ?ps ws (stage 0 cid ?ps 0 0 0))) =
             remdups_adj (map (\<lambda>k. surfaced (Inr (stage_view k ?ps))) [0..<Suc n'])"
      by blast
    let ?s = "stage n' cid ?ps d1' d2' t'"
    note m = stage_mount [OF assms(1), of ?ps 0 0]
    have tr': "remdups_adj (map surfaced (serve_trace ?ps ws (mount (Some cid)))) =
        (if n' = 0 then [Loading] else if n' \<le> 4 then [Loading, Pending]
         else [Loading, Pending, Ready])"
      using tr stage_surfaces [OF n', of ?ps] by (simp add: m)
    have r: "AnalysisContent ?s = Inr (stage_view n' ?ps)" using n' by (rule render)
    have len: "length (issued ?s) = n' div 2 + 1" using n' by (simp add: stage_def)
    have ready: "n' = 5" if "surfaced (AnalysisContent ?s) = Ready"
      using that r by (auto simp: stage_view_def split: if_splits)
    have fin: "timers ?s = []" "inflight ?s = []" "length (issued ?s) = 3"
        "AnalysisContent ?s = Inr (ReportCard (get p3 ''analysis''))" if "n' = 5"
      using that r by (simp_all add: stage_def stage_view_def)
    have stable: "AnalysisContent s' = Inr (ReportCard (get p3 ''analysis'')) \<and>
        issued s' = issued ?s \<and> timers s' = []"
      if "n' = 5" "list_all unattended es \<and> run es ?s = Inr s'" for es s'
    proof -
      from that idle_run [OF fin(1,2) [OF that(1)], of es s'] obtain k
        where "s' = ?s\<lparr> clock := k \<rparr>" by blast
      with fin [OF that(1)] show ?thesis by simp
    qed
    have "serve_run ?ps ws (mount (Some cid)) = Inr ?s" using run by (simp add: m)
    moreover have "length (issued ?s) \<le> 3" using len n' by simp
    moreover have "remdups_adj (map surfaced (serve_trace ?ps ws (mount (Some cid)))) \<in>
            {[Loading], [Loading, Pending], [Loading, Pending, Ready]}"
      using tr' by simp
    moreover have "surfaced (AnalysisContent ?s) = Ready \<longrightarrow>
             remdups_adj (map surfaced (serve_trace ?ps ws (mount (Some cid)))) =
               [Loading, Pending, Ready] \<and>
             AnalysisContent ?s = Inr (ReportCard (get p3 ''analysis'')) \<and>
             timers ?s = [] \<and> inflight ?s = [] \<and> length (issued ?s) = 3 \<and>
             (\<forall>es s'. list_all unattended es \<and> run es ?s = Inr s' \<longrightarrow>
                AnalysisContent s' = Inr (ReportCard (get p3 ''analysis'')) \<and>
                issued s' = issued ?s \<and> timers s' = [])"
    proof
      assume "surfaced (AnalysisContent ?s) = Ready"
      then have five: "n' = 5" by (rule ready)
      from tr' five have "remdups_adj (map surfaced (serve_trace ?ps ws (mount (Some cid)))) =
               [Loading, Pending, Ready]" by simp
      with fin [OF five] stable [OF five] show
        "remdups_adj (map surfaced (serve_trace ?ps ws (mount (Some cid)))) =
               [Loading, Pending, Ready] \<and>
             AnalysisContent ?s = Inr (ReportCard (get p3 ''analysis'')) \<and>
             timers ?s = [] \<and> inflight ?s = [] \<and> length (issued ?s) = 3 \<and>
             (\<forall>es s'. list_all unattended es \<and> run es ?s = Inr s' \<longrightarrow>
                AnalysisContent s' = Inr (ReportCard (get p3 ''analysis'')) \<and>
                issued s' = issued ?s \<and> timers s' = [])"
        by blast
    qed
    ultimately show ?thesis by (intro exI [of _ ?s] conjI)
  qed
  have third: "run es0 (mount cid0) = Inr s0 \<and> find (\<lambda>r. request_id r = i) (inflight s0) = Some r \<and>
    \<not> cancelled (request_owner r) s0 \<and> truthy payload \<and>
    get payload ''status'' \<noteq> JStr ''pending'' \<longrightarrow>
      (\<exists>s'. step (Respond i (Resolved True (Some payload))) s0 = Inr s' \<and> timers s' = [] \<and>
            issued s' = issued s0)"
  proof (intro impI, elim conjE)
    assume reach: "run es0 (mount cid0) = Inr s0"
      and r: "find (\<lambda>r. request_id r = i) (inflight s0) = Some r"
      and live: "\<not> cancelled (request_owner r) s0"
      and t: "truthy payload" and settled: "get payload ''status'' \<noteq> JStr ''pending''"
    from mount_inv reach have "reconciler_inv s0" by (rule run_inv)
    from respond_settled [OF this r live t settled]
    show "\<exists>s'. step (Respond i (Resolved True (Some payload))) s0 = Inr s' \<and> timers s' = [] \<and>
              issued s' = issued s0" .
  qed
  have fourth: "first_render (Some cid) = Inr Blank"
    using assms(1) by (simp add: first_render_def render_eval)
  from first second third fourth show ?thesis by (intro conjI)
qed

theorem pending_pending_ready_witness:
  "serve_trace [analysis_pending, analysis_pending_later, analysis_ready]
     [Deliver 0, Wait 5000, Deliver 1, Wait 7500, Deliver 2] (mount (Some ''c1'')) =
     [Inr LoaderCard,
      Inr (PendingCard (JStr ''c1'') (JStr ''2025-01-01T00:00:00Z'')),
      Inr (PendingCard (JStr ''c1'') (JStr ''2025-01-01T00:00:00Z'')),
      Inr (PendingCard (JStr ''c1'') (JStr ''2025-01-01T00:00:06Z'')),
      Inr (PendingCard (JStr ''c1'') (JStr ''2025-01-01T00:00:06Z'')),
      Inr (ReportCard report_c1)] \<and>
   remdups_adj (map surfaced
     (serve_trace [analysis_pending, analysis_pending_later, analysis_ready]
        [Wait 1200, Deliver 0, Wait 3000, Deliver 1, Wait 2500, Deliver 1, Deliver 0, Wait 7000,
         Deliver 2, Wait 60000, Deliver 2] (mount (Some ''c1'')))) =
     [Loading, Pending, Ready] \<and>
   (\<exists>s. serve_run [analysis_pending, analysis_pending_later, analysis_ready]
          [Wait 1200, Deliver 0, Wait 3000, Deliver 1, Wait 2500, Deliver 1, Deliver 0, Wait 7000,
           Deliver 2, Wait 60000, Deliver 2] (mount (Some ''c1'')) = Inr s \<and>
        AnalysisContent s = Inr (ReportCard report_c1) \<and>
        timers s = [] \<and> inflight s = [] \<and> length (issued s) = 3 \<and>
        (\<exists>s'. run [Tick 60000, Respond 6 (Resolved True (Some analysis_pending))] s = Inr s' \<and>
              AnalysisContent s' = Inr (ReportCard report_c1) \<and>
              issued s' = issued s \<and> timers s' = [])) \<and>
   (\<exists>s'. step (Respond 2 (Resolved True (Some analysis_ready))) (mount (Some ''c1'')) = Inr s' \<and>
         timers s' = [] \<and> issued s' = issued (mount (Some ''c1''))) \<and>
   first_render (Some ''c1'') = Inr Blank"
proof -
  let ?ps = "[analysis_pending, analysis_pending_later, analysis_ready]"
  let ?ws = "[Wait 1200, Deliver 0, Wait 3000, Deliver 1, Wait 2500, Deliver 1, Deliver 0,
              Wait 7000, Deliver 2, Wait 60000, Deliver 2]"
  have cid: "''c1'' \<noteq> []" by simp
  have vals: "get analysis_pending ''conversation_id'' = JStr ''c1''"
      "get analysis_pending ''updated_at'' = JStr ''2025-01-01T00:00:00Z''"
      "get analysis_pending_later ''conversation_id'' = JStr ''c1''"
      "get analysis_pending_later ''updated_at'' = JStr ''2025-01-01T00:00:06Z''"
      "get analysis_ready ''analysis'' = report_c1"
    by (simp_all add: analysis_pending_def analysis_pending_later_def analysis_ready_def get_def)
  note t = pending_pending_ready
             [OF cid fixtures_typed,
              where a = 5000 and b = 7500 and ws = ?ws
                and ?es0.0 = "[]" and ?cid0.0 = "Some ''c1''"
                and ?s0.0 = "mount (Some ''c1'')" and i = 2
                and r = "\<lparr> request_id = 2, request_owner = 1, withSpinner = True,
                            url = ''/api/interview-analysis/c1'', issued_at = 0 \<rparr>"
                and payload = analysis_ready, unfolded vals]
  have trace: "serve_trace ?ps [Deliver 0, Wait 5000, Deliver 1, Wait 7500, Deliver 2]
       (mount (Some ''c1'')) =
     [Inr LoaderCard,
      Inr (PendingCard (JStr ''c1'') (JStr ''2025-01-01T00:00:00Z'')),
      Inr (PendingCard (JStr ''c1'') (JStr ''2025-01-01T00:00:00Z'')),
      Inr (PendingCard (JStr ''c1'') (JStr ''2025-01-01T00:00:06Z'')),
      Inr (PendingCard (JStr ''c1'') (JStr ''2025-01-01T00:00:06Z'')),
      Inr (ReportCard report_c1)]"
    using t [THEN conjunct1] by simp
  from t [THEN conjunct2, THEN conjunct1] obtain s where
    s: "serve_run ?ps ?ws (mount (Some ''c1'')) = Inr s"
    and ready: "surfaced (AnalysisContent s) = Ready \<Longrightarrow>
       remdups_adj (map surfaced (serve_trace ?ps ?ws (mount (Some ''c1'')))) =
         [Loading, Pending, Ready] \<and>
       AnalysisContent s = Inr (ReportCard report_c1) \<and>
       timers s = [] \<and> inflight s = [] \<and> length (issued s) = 3 \<and>
       (\<forall>es s'. list_all unattended es \<and> run es s = Inr s' \<longrightarrow>
          AnalysisContent s' = Inr (ReportCard report_c1) \<and>
          issued s' = issued s \<and> timers s' = [])"
    by blast
  have "serve_run ?ps ?ws (mount (Some ''c1'')) =
      Inr (stage 5 ''c1'' ?ps 6200 11700 73700)"
    using fixtures_typed(4-6)
    by (simp add: stage_mount [OF cid, of ?ps 0 0] stage_deliver_0
        stage_wait_1 [unfolded One_nat_def] stage_deliver_2 stage_wait_3 stage_deliver_4
        stage_wait stage_deliver_idle stage_deliver_idle [unfolded One_nat_def])
  with s have "s = stage 5 ''c1'' ?ps 6200 11700 73700" by simp
  then have "surfaced (AnalysisContent s) = Ready"
    using stage_render [OF cid fixtures_typed, of 5 6200 11700 73700]
    by (simp add: stage_view_def)
  note fin = ready [OF this]
  from run_total obtain s' where
    s': "run [Tick 60000, Respond 6 (Resolved True (Some analysis_pending))] s = Inr s'"
    by blast
  have "list_all unattended [Tick 60000, Respond 6 (Resolved True (Some analysis_pending))]"
    by simp
  with fin s' have later: "AnalysisContent s' = Inr (ReportCard report_c1) \<and>
      issued s' = issued s \<and> timers s' = []"
    by blast
  have settled: "run [] (mount (Some ''c1'')) = Inr (mount (Some ''c1'')) \<and>
      find (\<lambda>r. request_id r = 2) (inflight (mount (Some ''c1''))) =
        Some \<lparr> request_id = 2, request_owner = 1, withSpinner = True,
               url = ''/api/interview-analysis/c1'', issued_at = 0 \<rparr> \<and>
      \<not> cancelled (request_owner \<lparr> request_id = 2, request_owner = 1, withSpinner = True,
               url = ''/api/interview-analysis/c1'', issued_at = 0 \<rparr>) (mount (Some ''c1'')) \<and>
      truthy analysis_ready \<and> get analysis_ready ''status'' \<noteq> JStr ''pending''"
    by (simp add: analysis_eval analysis_ready_def)
  note g = t [THEN conjunct2, THEN conjunct2, THEN conjunct1, THEN mp, OF settled]
  note f = t [THEN conjunct2, THEN conjunct2, THEN conjunct2]
  from trace s fin s' later g f show ?thesis by blast
qed

text \<open>
  The declared type matters: a ready answer whose analysis has no \<^verbatim>\<open>case_summary\<close> makes
  the render raise, in the computation of \<^verbatim>\<open>score\<close>.
\<close>

lemma analysis_without_summary_raises:
  "\<exists>s. run [Respond 2 (Resolved True (Some analysis_without_summary))] (mount (Some ''c1'')) = Inr s \<and>
       AnalysisContent s =
         Inl (Error ''Cannot read properties of undefined (reading 'user_confidence')'')"
  by (simp add: analysis_eval analysis_without_summary_def AnalysisContent_def score_def
      readyAnalysis_def)

text \<open>
  C5 fails on the code. The second request for \<^verbatim>\<open>c1\<close> is answered with status 500 and the
  body \<^verbatim>\<open>{"detail": ""}\<close>: the message of the error is the empty string, which
  \<^verbatim>\<open>if (error)\<close> takes for no error, and the page goes on showing the pending card of the
  first answer. No retry is scheduled.
\<close>

theorem empty_error_message_shows_pending:
  "\<exists>s. run [Respond 2 (Resolved True (Some analysis_pending)), Tick 5000,
             Respond 4 (Resolved False (Some (JObj [(''detail'', JStr [])])))]
         (mount (Some ''c1'')) = Inr s \<and>
       st_error s = Some [] \<and>
       AnalysisContent s = Inr (PendingCard (JStr ''c1'') (JStr ''2025-01-01T00:00:00Z'')) \<and>
       timers s = [] \<and> inflight s = []"
  by (simp add: analysis_eval render_eval analysis_pending_def)

text \<open>What does hold of a failed request: a failed request of the closure in place stores its message as the
  error, schedules nothing and sends nothing, and a message that is not empty is what
  \<^verbatim>\<open>renderContent\<close> shows once a status was stored or the spinner of this request is taken
  down.\<close>

lemma failed_fetch_sets_error:
  assumes "find (\<lambda>r. request_id r = i) (inflight s) = Some r"
    and "\<not> cancelled (request_owner r) s" and "failed out"
  shows "\<exists>s'. step (Respond i out) s = Inr s' \<and> st_error s' = Some (failure_message out) \<and>
           timers s' = timers s \<and> issued s' = issued s \<and>
           (failure_message out \<noteq> [] \<and> \<not> no_conversation (search_conversationId s) \<and>
            (withSpinner r \<or> st_status s \<noteq> None) \<longrightarrow>
              renderContent s' = Inr (ErrorCard (failure_message out)))"
  using assms by (auto simp: step_def resume_failed render_eval)


section \<open>Properties of the status polling\<close>

lemma session_fetchSessionStatus [simp]: "session (fetchSessionStatus s) = session s"
  and intervalId_fetchSessionStatus [simp]: "intervalId (fetchSessionStatus s) = intervalId s"
  and page_clock_fetchSessionStatus [simp]: "page_clock (fetchSessionStatus s) = page_clock s"
  by (simp_all add: fetchSessionStatus_def)

lemma session_polling_effect [simp]: "session (polling_effect s) = session s"
  and page_clock_polling_effect [simp]: "page_clock (polling_effect s) = page_clock s"
  by (simp_all add: polling_effect_def Let_def)

lemma session_setSession [simp]: "session (setSession new fresh s) = new"
  and page_clock_setSession [simp]: "page_clock (setSession new fresh s) = page_clock s"
  by (simp_all add: setSession_def)

lemma polling_inv_initial: "polling_inv initial_page"
  by (simp add: polling_inv_def pollable_def initial_page_def get_def)

lemma polling_inv_setSession:
  assumes "polling_inv s"
  shows "polling_inv (setSession new fresh s)"
proof (cases "same_dep (get (session s) ''sessionId'') (get new ''sessionId'') (fresh ''sessionId'') \<and>
              same_dep (get (session s) ''status'') (get new ''status'') (fresh ''status'')")
  case True
  then have eq: "get new ''sessionId'' = get (session s) ''sessionId''"
                "get new ''status'' = get (session s) ''status''"
    by (auto simp: same_dep_def)
  have "setSession new fresh s = s\<lparr> session := new \<rparr>"
    using True by (simp add: setSession_def)
  with assms eq show ?thesis by (simp add: polling_inv_def pollable_def)
next
  case False
  then have "setSession new fresh s = polling_effect (s\<lparr> session := new, intervalId := None \<rparr>)"
    unfolding setSession_def by (simp only: if_False)
  then show ?thesis
    by (simp add: polling_inv_def pollable_def polling_effect_def Let_def POLL_INTERVAL_def)
qed

lemma polling_inv_merge_session: "polling_inv s \<Longrightarrow> polling_inv (merge_session data s)"
  by (simp add: merge_session_def polling_inv_setSession)

lemma polling_inv_flags:
  "polling_inv (s\<lparr> errorMessage := a \<rparr>) = polling_inv s"
  "polling_inv (s\<lparr> isCreatingSession := b \<rparr>) = polling_inv s"
  "polling_inv (s\<lparr> isStartingBot := b \<rparr>) = polling_inv s"
  "polling_inv (s\<lparr> console := c \<rparr>) = polling_inv s"
  by (simp_all add: polling_inv_def)

lemma run_interval_fields:
  "session (run_interval d limit s) = session s \<and>
   page_clock (run_interval d limit s) = limit \<and>
   (\<exists>d'. intervalId (run_interval d limit s) = Some d' \<and> limit < d' \<and>
         (d \<le> limit + POLL_INTERVAL \<longrightarrow> d' \<le> limit + POLL_INTERVAL))"
proof (induction d limit s rule: run_interval.induct)
  case (1 d limit s)
  show ?case
  proof (cases "d \<le> limit")
    case True
    then have "run_interval d limit s =
               run_interval (d + POLL_INTERVAL) limit (fetchSessionStatus (s\<lparr> page_clock := d \<rparr>))"
      by (subst run_interval.simps) simp
    with "1.IH" [OF True] True show ?thesis by (auto simp: POLL_INTERVAL_def)
  next
    case False
    then have "run_interval d limit s = s\<lparr> intervalId := Some d, page_clock := limit \<rparr>"
      by (subst run_interval.simps) simp
    with False show ?thesis by simp
  qed
qed

lemma polling_inv_elapse: "polling_inv s \<Longrightarrow> polling_inv (elapse ms s)"
proof (cases "intervalId s")
  case None
  assume "polling_inv s"
  with None show ?thesis by (simp add: elapse_def polling_inv_def)
next
  case (Some d)
  assume inv: "polling_inv s"
  with Some have d: "d \<le> (page_clock s + ms) + POLL_INTERVAL" by (simp add: polling_inv_def)
  from run_interval_fields [of d "page_clock s + ms" s] d
  obtain d' where "session (run_interval d (page_clock s + ms) s) = session s"
      "page_clock (run_interval d (page_clock s + ms) s) = page_clock s + ms"
      "intervalId (run_interval d (page_clock s + ms) s) = Some d'"
      "page_clock s + ms < d'" "d' \<le> page_clock s + ms + POLL_INTERVAL"
    by auto
  with inv Some show ?thesis by (simp add: elapse_def polling_inv_def)
qed

lemma page_step_total: "\<exists>s'. page_step e s = Inr s'"
  by (cases e)
     (auto simp: page_step_def handleCreateSession_resume_def handleStartBot_resume_def
        fetchSessionStatus_resume_def try_catch_def Let_def split: outcome.splits sum.splits)

lemma polling_inv_step:
  assumes "polling_inv s" "page_step e s = Inr s'"
  shows "polling_inv s'"
proof (cases e)
  case SelectionChanged
  with assms show ?thesis
    by (auto simp: page_step_def reset_flow_def polling_inv_flags polling_inv_setSession)
next
  case CreateClicked
  with assms show ?thesis
    by (auto simp: page_step_def handleCreateSession_def polling_inv_def)
next
  case (CreateResponded out)
  with assms show ?thesis
    by (auto simp: page_step_def handleCreateSession_resume_def try_catch_def Let_def
        polling_inv_flags polling_inv_setSession split: outcome.splits sum.splits if_splits)
next
  case StartClicked
  with assms show ?thesis
    by (auto simp: page_step_def handleStartBot_def polling_inv_def split: if_splits)
next
  case (StartResponded out)
  with assms show ?thesis
    by (auto simp: page_step_def handleStartBot_resume_def try_catch_def Let_def
        polling_inv_flags polling_inv_merge_session split: outcome.splits sum.splits if_splits)
next
  case (StatusResponded out)
  with assms show ?thesis
    by (auto simp: page_step_def fetchSessionStatus_resume_def try_catch_def Let_def
        polling_inv_flags polling_inv_merge_session split: outcome.splits sum.splits if_splits)
next
  case (Elapse ms)
  with assms show ?thesis
    by (auto simp: page_step_def polling_inv_elapse)
qed

lemma polling_inv_run:
  "polling_inv s \<Longrightarrow> page_run es s = Inr s' \<Longrightarrow> polling_inv s'"
proof (induction es arbitrary: s)
  case Nil
  then show ?case by simp
next
  case (Cons e es)
  from page_step_total obtain s1 where s1: "page_step e s = Inr s1" by blast
  with Cons.prems have "page_run es s1 = Inr s'" by simp
  moreover from Cons.prems(1) s1 have "polling_inv s1" by (rule polling_inv_step)
  ultimately show ?case by (rule Cons.IH [rotated])
qed

lemma page_run_total: "\<exists>s'. page_run es s = Inr s'"
proof (induction es arbitrary: s)
  case Nil
  show ?case by simp
next
  case (Cons e es)
  from page_step_total obtain s1 where "page_step e s = Inr s1" by blast
  with Cons.IH [of s1] show ?case by simp
qed

lemma status_requests_fetchSessionStatus:
  "truthy (get (session s) ''sessionId'') \<Longrightarrow>
   status_requests (fetchSessionStatus s) = status_requests s @ [(page_clock s, status_path s)]"
  by (simp add: fetchSessionStatus_def status_path_def)

lemma status_path_cong: "session s = session t \<Longrightarrow> status_path s = status_path t"
  by (simp add: status_path_def)







lemma fetchSessionStatus_console:
  "fetchSessionStatus (s\<lparr> console := lg \<rparr>) = (fetchSessionStatus s)\<lparr> console := lg \<rparr>"
  by (simp add: fetchSessionStatus_def)

lemma run_interval_console:
  "run_interval d limit (s\<lparr> console := lg \<rparr>) = (run_interval d limit s)\<lparr> console := lg \<rparr>"
proof (induction d limit s rule: run_interval.induct)
  case (1 d limit s)
  show ?case
  proof (cases "d \<le> limit")
    case True
    have "run_interval d limit (s\<lparr> console := lg \<rparr>) =
          run_interval (d + POLL_INTERVAL) limit (fetchSessionStatus (s\<lparr> console := lg, page_clock := d \<rparr>))"
      using True by (subst run_interval.simps) simp
    also have "fetchSessionStatus (s\<lparr> console := lg, page_clock := d \<rparr>) =
               (fetchSessionStatus (s\<lparr> page_clock := d \<rparr>))\<lparr> console := lg \<rparr>"
      by (simp add: fetchSessionStatus_def)
    also have "run_interval (d + POLL_INTERVAL) limit \<dots> =
               (run_interval (d + POLL_INTERVAL) limit (fetchSessionStatus (s\<lparr> page_clock := d \<rparr>)))\<lparr> console := lg \<rparr>"
      using "1.IH" [OF True] .
    also have "\<dots> = (run_interval d limit s)\<lparr> console := lg \<rparr>"
      using True by (subst (2) run_interval.simps) simp
    finally show ?thesis .
  next
    case False
    then show ?thesis by (subst run_interval.simps, subst (2) run_interval.simps) simp
  qed
qed

lemma elapse_console:
  "elapse ms (s\<lparr> console := lg \<rparr>) = (elapse ms s)\<lparr> console := lg \<rparr>"
  by (simp add: elapse_def run_interval_console split: option.splits)


lemmas page_eval =
  page_step_def handleCreateSession_def handleCreateSession_resume_def handleStartBot_def
  handleStartBot_resume_def fetchSessionStatus_resume_def fetchSessionStatus_def
  merge_session_def setSession_def polling_effect_def reset_flow_def elapse_def
  try_catch_def parseJsonSafe_def same_dep_def get_def spread2_def AList.merge_def
  pollableStatuses_def POLL_INTERVAL_def initial_page_def Let_def run_interval.simps




lemma page_paused_reached:
  "page_run [CreateClicked, CreateResponded (Resolved True (Some session_created)), StartClicked,
             StartResponded (Resolved True (Some answer_starting)), Elapse 4000,
             StatusResponded (Resolved True (Some answer_paused))] initial_page =
     Inr page_paused"
  by (simp add: page_eval session_created_def page_paused_def answer_starting_def
      answer_paused_def)


lemma digit_is_digit: "d < 10 \<Longrightarrow> digit d \<in> set ''0123456789''"
proof -
  assume "d < 10"
  then have "d \<in> {0, 1, 2, 3, 4, 5, 6, 7, 8, 9}" by auto
  then show ?thesis by (auto simp: digit_def)
qed

lemma show_nat_digits: "set (show_nat n) \<subseteq> set ''0123456789''"
proof (induction n rule: show_nat.induct)
  case (1 n)
  show ?case
  proof (cases "n < 10")
    case True
    then have "show_nat n = [digit n]" by (subst show_nat.simps) simp
    with digit_is_digit [OF True] show ?thesis by simp
  next
    case False
    then have eq: "show_nat n = show_nat (n div 10) @ [digit (n mod 10)]"
      by (subst show_nat.simps) simp
    have "n mod 10 < 10" by simp
    from digit_is_digit [OF this] "1.IH" [OF False] show ?thesis
      unfolding eq by simp
  qed
qed

lemma not_an_index:
  assumes "c \<in> set k" "c \<notin> set ''0123456789''"
  shows "k \<notin> set (map show_nat ns)"
proof
  assume "k \<in> set (map show_nat ns)"
  then obtain n where "k = show_nat n" by auto
  with assms(1) show_nat_digits [of n] have "c \<in> set ''0123456789''" by blast
  with assms(2) show False by contradiction
qed

lemma map_of_zip_None: "k \<notin> set ks \<Longrightarrow> map_of (zip ks vs) k = None"
  by (auto simp: map_of_eq_None_iff dest: set_zip_leftD)

text \<open>A field with a letter in its name is an own property of objects only.\<close>

lemma own_props_field:
  assumes "c \<in> set k" "c \<notin> set ''0123456789''"
  shows "map_of (own_props v) k = (case v of JObj ps \<Rightarrow> map_of ps k | _ \<Rightarrow> None)"
proof (cases v)
  case (JArr xs)
  from not_an_index [OF assms] have "k \<notin> set (map show_nat [0..<length xs])" .
  with JArr show ?thesis by (simp add: map_of_zip_None)
next
  case (JStr s)
  from not_an_index [OF assms] have "k \<notin> set (map show_nat [0..<length s])" .
  with JStr show ?thesis by (simp add: map_of_zip_None)
qed simp_all

lemma get_spread2:
  assumes "c \<in> set k" "c \<notin> set ''0123456789''"
  shows "get (spread2 a b) k =
           (case map_of (own_props b) k of Some v \<Rightarrow> v | None \<Rightarrow> get a k)"
proof -
  have pa: "map_of (own_props a) k = (case a of JObj ps \<Rightarrow> map_of ps k | _ \<Rightarrow> None)"
    using assms by (rule own_props_field)
  have ga: "get a k = (case map_of (own_props a) k of Some v \<Rightarrow> v | None \<Rightarrow> JUndefined)"
    unfolding pa by (cases a) (simp_all add: get_def)
  show ?thesis
    unfolding ga by (simp add: get_def spread2_def merge_conv' map_add_def split: option.splits)
qed

lemma get_status_spread2:
  "get (spread2 a b) ''status'' =
     (case map_of (own_props b) ''status'' of Some v \<Rightarrow> v | None \<Rightarrow> get a ''status'')"
  by (rule get_spread2 [of "CHR ''s''"]) simp_all

lemma props_status_get:
  "map_of (own_props b) ''status'' = Some v \<Longrightarrow> get b ''status'' = v"
  using own_props_field [of "CHR ''s''" "''status''" b]
  by (cases b) (simp_all add: get_def)

text \<open>A session whose status is not polled, with no interval: an unattended event leaves
  both so and sends nothing.\<close>

lemma setSession_unpolled:
  assumes "get new ''status'' \<notin> set (map JStr pollableStatuses)" "intervalId s = None"
  shows "setSession new fresh s = s\<lparr> session := new \<rparr>"
  using assms by (simp add: setSession_def polling_effect_def)

lemma merge_session_unpolled:
  assumes old: "get (session s) ''status'' \<notin> set (map JStr pollableStatuses)"
    and none: "intervalId s = None"
    and new: "get data ''status'' \<notin> set (map JStr pollableStatuses)"
  shows "\<exists>v. merge_session data s = s\<lparr> session := v \<rparr> \<and>
             get v ''status'' \<notin> set (map JStr pollableStatuses)"
proof (cases "truthy (session s)")
  case True
  have "get (spread2 (session s) data) ''status'' \<notin> set (map JStr pollableStatuses)"
  proof (cases "map_of (own_props data) ''status''")
    case None
    with old show ?thesis by (simp add: get_status_spread2)
  next
    case (Some v)
    from props_status_get [OF Some] new Some show ?thesis by (simp add: get_status_spread2)
  qed
  moreover from this none True
  have "merge_session data s = s\<lparr> session := spread2 (session s) data \<rparr>"
    by (simp add: merge_session_def setSession_unpolled)
  ultimately show ?thesis by blast
next
  case False
  with new none have "merge_session data s = s\<lparr> session := data \<rparr>"
    by (simp add: merge_session_def setSession_unpolled)
  with new show ?thesis by blast
qed

lemma unattended_step:
  assumes old: "get (session s) ''status'' \<notin> set (map JStr pollableStatuses)"
    and none: "intervalId s = None"
    and e: "page_unattended e" and st: "page_step e s = Inr s'"
  shows "get (session s') ''status'' \<notin> set (map JStr pollableStatuses) \<and> intervalId s' = None \<and>
         status_requests s' = status_requests s"
proof (cases e)
  case (Elapse ms)
  with old none st show ?thesis by (auto simp: page_step_def elapse_def)
next
  case (StatusResponded out)
  show ?thesis
  proof (cases out)
    case (Rejected x)
    with StatusResponded old none st show ?thesis
      by (auto simp: page_step_def fetchSessionStatus_resume_def try_catch_def)
  next
    case (Resolved ok parsed)
    show ?thesis
    proof (cases "ok \<and> truthy (parseJsonSafe parsed)")
      case False
      with Resolved StatusResponded st have "s' = s"
        by (auto simp: page_step_def fetchSessionStatus_resume_def try_catch_def Let_def
            split: if_splits)
      with old none show ?thesis by simp
    next
      case True
      with e StatusResponded Resolved
      have new: "get (parseJsonSafe parsed) ''status'' \<notin> set (map JStr pollableStatuses)"
        by (simp add: reports_pollable_def)
      from merge_session_unpolled [OF old none new] obtain v where
        v: "merge_session (parseJsonSafe parsed) s = s\<lparr> session := v \<rparr>"
           "get v ''status'' \<notin> set (map JStr pollableStatuses)"
        by blast
      from st StatusResponded Resolved True have "s' = merge_session (parseJsonSafe parsed) s"
        by (simp add: page_step_def fetchSessionStatus_resume_def try_catch_def Let_def)
      with v none show ?thesis by simp
    qed
  qed
qed (use e in simp_all)

lemma unattended_run:
  assumes "get (session s) ''status'' \<notin> set (map JStr pollableStatuses)" "intervalId s = None"
    and "list_all page_unattended es" "page_run es s = Inr s'"
  shows "status_requests s' = status_requests s \<and> intervalId s' = None"
  using assms
proof (induction es arbitrary: s)
  case Nil
  then show ?case by simp
next
  case (Cons e es)
  from page_step_total obtain s1 where s1: "page_step e s = Inr s1" by blast
  from Cons.prems have e: "page_unattended e" and es: "list_all page_unattended es" by simp_all
  from unattended_step [OF Cons.prems(1,2) e s1]
  have a: "get (session s1) ''status'' \<notin> set (map JStr pollableStatuses)" "intervalId s1 = None"
    and b: "status_requests s1 = status_requests s"
    by simp_all
  from Cons.prems(4) s1 have "page_run es s1 = Inr s'" by simp
  from Cons.IH [OF a es this] b show ?case by simp
qed





text \<open>
  C1, as the specification states it, has the page keep polling a session whose status
  is none of the six known ones. The page polls up to the answer that carries the unknown
  status \<^verbatim>\<open>bot_paused\<close>; in the minute that follows no status request leaves it.
\<close>

theorem unknown_status_stops_polling:
  "page_run [CreateClicked, CreateResponded (Resolved True (Some session_created)), StartClicked,
             StartResponded (Resolved True (Some answer_starting)), Elapse 4000,
             StatusResponded (Resolved True (Some answer_paused)), Elapse 60000] initial_page =
     Inr (page_paused\<lparr> page_clock := 64000 \<rparr>) \<and>
   status_requests (page_paused\<lparr> page_clock := 64000 \<rparr>) =
     [(0, ''/api/interview-sessions/s1/status''), (4000, ''/api/interview-sessions/s1/status'')] \<and>
   intervalId (page_paused\<lparr> page_clock := 64000 \<rparr>) = None"
  by (simp add: page_eval session_created_def page_paused_def answer_starting_def
      answer_paused_def)

text \<open>
  C1, amended. In every state the page reaches, a session whose status is a string other
  than the six known ones is not polled: no interval is registered, and no status request
  leaves the page, however much time passes and whatever status answers arrive (a late
  answer that still reports one of the three polled statuses apart). The page shows the
  generic message \<^verbatim>\<open>Updating session...\<close> for it (the statuses that are names of members
  of \<^verbatim>\<open>Object.prototype\<close> are left aside).
\<close>

theorem unknown_status_is_not_polled:
  "page_run es initial_page = Inr s \<and> get (session s) ''status'' = JStr st \<and>
   st \<notin> set (map fst SESSION_STATUS_LABELS) \<longrightarrow>
     intervalId s = None \<and>
     (\<forall>es' s'. list_all page_unattended es' \<and> page_run es' s = Inr s' \<longrightarrow>
        status_requests s' = status_requests s) \<and>
     (st \<notin> set object_prototype_keys \<longrightarrow> statusDescription s = JStr ''Updating session...'')"
proof (intro impI conjI; (elim conjE)?)
  assume reach: "page_run es initial_page = Inr s"
    and st: "get (session s) ''status'' = JStr st"
    and unknown: "st \<notin> set (map fst SESSION_STATUS_LABELS)"
  from polling_inv_run [OF polling_inv_initial reach] have inv: "polling_inv s" .
  from st unknown have unpolled: "get (session s) ''status'' \<notin> set (map JStr pollableStatuses)"
    by (auto simp: pollableStatuses_def SESSION_STATUS_LABELS_def)
  then have "\<not> pollable (session s)" by (simp add: pollable_def)
  with inv show none: "intervalId s = None" by (simp add: polling_inv_def)
  show "\<forall>es' s'. list_all page_unattended es' \<and> page_run es' s = Inr s' \<longrightarrow>
        status_requests s' = status_requests s"
    using unattended_run [OF unpolled none] by blast
  assume own: "st \<notin> set object_prototype_keys"
  from st have "truthy (session s)" by (cases "session s") (simp_all add: get_def)
  moreover from unknown have "map_of SESSION_STATUS_LABELS st = None"
    by (simp add: map_of_eq_None_iff)
  ultimately show "statusDescription s = JStr ''Updating session...''"
    using st own by (simp add: statusDescription_def index_record_def coalesce_def)
qed

theorem unknown_status_is_not_polled_witness:
  "intervalId page_paused = None \<and>
   page_run [Elapse 1000, StatusResponded (Resolved True (Some answer_paused)), Elapse 59000]
     page_paused = Inr (page_paused\<lparr> page_clock := 64000 \<rparr>) \<and>
   status_requests (page_paused\<lparr> page_clock := 64000 \<rparr>) = status_requests page_paused \<and>
   statusDescription page_paused = JStr ''Updating session...''"
proof -
  have st: "get (session page_paused) ''status'' = JStr ''bot_paused''"
    by (simp add: page_paused_def get_def)
  have unknown: "''bot_paused'' \<notin> set (map fst SESSION_STATUS_LABELS)"
    by (simp add: SESSION_STATUS_LABELS_def)
  have own: "''bot_paused'' \<notin> set object_prototype_keys"
    by (simp add: object_prototype_keys_def)
  have unattended:
    "list_all page_unattended
       [Elapse 1000, StatusResponded (Resolved True (Some answer_paused)), Elapse 59000]"
    by (simp add: reports_pollable_def parseJsonSafe_def answer_paused_def get_def
        pollableStatuses_def)
  have later:
    "page_run [Elapse 1000, StatusResponded (Resolved True (Some answer_paused)), Elapse 59000]
       page_paused = Inr (page_paused\<lparr> page_clock := 64000 \<rparr>)"
    by (simp add: page_eval page_paused_def answer_paused_def)
  from unknown_status_is_not_polled
         [where s = page_paused and st = "''bot_paused''",
          THEN mp, OF conjI [OF page_paused_reached conjI [OF st unknown]]] own unattended later
  show ?thesis by blast
qed

text \<open>
  The statuses left aside: the label table is an object literal, so the name of a member
  of \<^verbatim>\<open>Object.prototype\<close> finds that member instead of \<^verbatim>\<open>undefined\<close>, and the generic
  message is not taken.
\<close>

lemma inherited_name_has_no_label:
  "statusDescription (page_paused\<lparr> session := JObj [(''status'', JStr ''constructor'')] \<rparr>) =
     JNative ''constructor''"
  by (simp add: statusDescription_def index_record_def coalesce_def get_def
      SESSION_STATUS_LABELS_def object_prototype_keys_def)




text \<open>
  C7. A status request that ends without a usable answer leaves the page as it was: on a
  response that is not OK, or whose body does not parse or parses to a falsy value,
  nothing changes at all; when the request itself fails, the only change is one more line
  printed by \<^verbatim>\<open>console.error\<close>. The printed lines have no influence on the interval, so
  the polling goes on at the same times. Whatever the outcome, no exception leaves
  \<^verbatim>\<open>fetchSessionStatus\<close>.
\<close>

theorem status_fetch_failure_is_swallowed:
  "(out = Resolved False parsed \<or>
      (out = Resolved True parsed \<and> \<not> truthy (parseJsonSafe parsed)) \<longrightarrow>
     fetchSessionStatus_resume out s = Inr s) \<and>
   (out = Rejected e \<longrightarrow>
     fetchSessionStatus_resume out s =
       Inr (s\<lparr> console := console s @ [''Failed to refresh session status''] \<rparr>)) \<and>
   elapse ms (s\<lparr> console := lg \<rparr>) = (elapse ms s)\<lparr> console := lg \<rparr> \<and>
   (\<exists>s'. fetchSessionStatus_resume out' s = Inr s')"
  by (cases out') (auto simp: fetchSessionStatus_resume_def try_catch_def Let_def elapse_console)

theorem status_fetch_failure_is_swallowed_witness:
  "fetchSessionStatus_resume (Resolved False (Some (JObj [(''detail'', JStr ''boom'')])))
     page_starting = Inr page_starting \<and>
   fetchSessionStatus_resume (Resolved True None) page_starting = Inr page_starting \<and>
   fetchSessionStatus_resume (Rejected (Error ''Failed to fetch'')) page_starting =
     Inr (page_starting\<lparr> console := console page_starting @
                                      [''Failed to refresh session status''] \<rparr>) \<and>
   elapse 4000 (page_starting\<lparr> console := [''Failed to refresh session status''] \<rparr>) =
     (elapse 4000 page_starting)\<lparr> console := [''Failed to refresh session status''] \<rparr>"
proof -
  have unparsed: "\<not> truthy (parseJsonSafe None)"
    by (simp add: parseJsonSafe_def)
  from status_fetch_failure_is_swallowed
         [where out = "Resolved False (Some (JObj [(''detail'', JStr ''boom'')]))"
            and parsed = "Some (JObj [(''detail'', JStr ''boom'')])" and s = page_starting,
          THEN conjunct1]
  have a: "fetchSessionStatus_resume (Resolved False (Some (JObj [(''detail'', JStr ''boom'')])))
      page_starting = Inr page_starting"
    by blast
  from status_fetch_failure_is_swallowed
         [where out = "Resolved True None" and parsed = None and s = page_starting,
          THEN conjunct1] unparsed
  have b: "fetchSessionStatus_resume (Resolved True None) page_starting = Inr page_starting"
    by blast
  from status_fetch_failure_is_swallowed
         [where out = "Rejected (Error ''Failed to fetch'')" and e = "Error ''Failed to fetch''"
            and s = page_starting, THEN conjunct2, THEN conjunct1]
  have c: "fetchSessionStatus_resume (Rejected (Error ''Failed to fetch'')) page_starting =
      Inr (page_starting\<lparr> console := console page_starting @
                                       [''Failed to refresh session status''] \<rparr>)"
    by blast
  from status_fetch_failure_is_swallowed
         [where s = page_starting and ms = 4000
            and lg = "[''Failed to refresh session status'']",
          THEN conjunct2, THEN conjunct2, THEN conjunct1]
  have d: "elapse 4000 (page_starting\<lparr> console := [''Failed to refresh session status''] \<rparr>) =
      (elapse 4000 page_starting)\<lparr> console := [''Failed to refresh session status''] \<rparr>" .
  from a b c d show ?thesis by (intro conjI)
qed

text \<open>
  C8. On a successful status request (an OK response whose body parses to a truthy
  value) with a session held by the page, the new session has, for every field: the value
  of the response when the response has the field, the value it had before otherwise. So
  a field of the response overwrites, and no field of the session is lost. (When the page
  holds no session, the response becomes the session.)
\<close>

theorem status_response_is_merged:
  "(truthy (session s) \<and> truthy data \<longrightarrow>
     (\<exists>s'. fetchSessionStatus_resume (Resolved True (Some data)) s = Inr s' \<and>
        (\<forall>k. map_of (own_props (session s')) k =
               (case map_of (own_props data) k of
                  Some v \<Rightarrow> Some v
                | None \<Rightarrow> map_of (own_props (session s)) k)))) \<and>
   (\<not> truthy (session s) \<and> truthy data \<longrightarrow>
     (\<exists>s'. fetchSessionStatus_resume (Resolved True (Some data)) s = Inr s' \<and>
           session s' = data))"
  by (auto simp: fetchSessionStatus_resume_def try_catch_def parseJsonSafe_def merge_session_def
      spread2_def merge_conv' map_add_def split: option.splits)

theorem status_response_is_merged_witness:
  "fetchSessionStatus_resume (Resolved True (Some answer_completed))
     (page_starting\<lparr> page_clock := 4000,
                     status_requests := [(0, ''/api/interview-sessions/s1/status''),
                                         (4000, ''/api/interview-sessions/s1/status'')] \<rparr>) =
     Inr page_completed \<and>
   get (session page_completed) ''status'' = JStr ''bot_completed'' \<and>
   get (session page_completed) ''conversationId'' = JStr ''conv-42'' \<and>
   get (session page_completed) ''sessionId'' = JStr ''s1'' \<and>
   get (session page_completed) ''roomUrl'' = JStr ''https://x.daily.co/r1''"
proof -
  let ?s = "page_starting\<lparr> page_clock := 4000,
              status_requests := [(0, ''/api/interview-sessions/s1/status''),
                                  (4000, ''/api/interview-sessions/s1/status'')] \<rparr>"
  have pre: "truthy (session ?s) \<and> truthy answer_completed"
    by (simp add: page_starting_def answer_completed_def)
  have run: "fetchSessionStatus_resume (Resolved True (Some answer_completed)) ?s =
      Inr page_completed"
    by (simp add: page_eval page_starting_def page_completed_def answer_completed_def)
  from status_response_is_merged
         [where s = ?s and data = answer_completed, THEN conjunct1, THEN mp, OF pre] run
  have merged: "\<forall>k. map_of (own_props (session page_completed)) k =
             (case map_of (own_props answer_completed) k of
                Some v \<Rightarrow> Some v
              | None \<Rightarrow> map_of (own_props (session ?s)) k)"
    by simp
  have kept: "map_of (own_props (session page_completed)) ''sessionId'' = Some (JStr ''s1'')"
      "map_of (own_props (session page_completed)) ''roomUrl'' =
         Some (JStr ''https://x.daily.co/r1'')"
    unfolding merged [rule_format] by (simp_all add: answer_completed_def page_starting_def)
  have taken: "map_of (own_props (session page_completed)) ''status'' =
         Some (JStr ''bot_completed'')"
      "map_of (own_props (session page_completed)) ''conversationId'' = Some (JStr ''conv-42'')"
    unfolding merged [rule_format] by (simp_all add: answer_completed_def)
  have obj: "\<exists>ps. session page_completed = JObj ps" by (simp add: page_completed_def)
  then obtain ps where ps: "session page_completed = JObj ps" by blast
  from kept taken show ?thesis
    unfolding ps by (simp add: get_def run [unfolded ps])
qed

end
